theory Spec2Isabelle
  imports Main "HOL-Library.AList" "HOL-Library.Word"
begin

section \<open>The core model of perceptor (pkg/core/model.go)\<close>

text \<open>
  The Go package keeps one mutable \<open>Model\<close>. Every method is embedded as a function
  that takes the model and returns the new one. A \<open>panic\<close> is the left summand of the
  result; it carries the model as it stands at the moment of the panic, because Go
  mutates in place and a panic undoes nothing. Calls to the logger are left out.
\<close>

subsection \<open>Data\<close>

type_synonym DockerImageSha = string

text \<open>
  Modelled from the spec: the declaration of the enumeration \<open>ScanStatus\<close> is not part
  of the sources; its members are the eight names that model.go uses.
\<close>

datatype ScanStatus =
    ScanStatusUnknown
  | ScanStatusInHubCheckQueue
  | ScanStatusCheckingHub
  | ScanStatusInQueue
  | ScanStatusRunningScanClient
  | ScanStatusRunningHubScan
  | ScanStatusComplete
  | ScanStatusError

text \<open>
  Modelled from the spec: the struct \<open>Image\<close> (a digest plus a human-readable name);
  model.go reads its fields \<open>Sha\<close> and \<open>Name\<close>.
\<close>

record Image =
  Name :: string
  Sha :: DockerImageSha

text \<open>
  Modelled from the spec: the scan results of one image (policy-violation count,
  vulnerability count, overall status label). model.go reads them through the three
  methods of the same names; Go's \<open>int\<close> is the 64-bit machine integer of the amd64
  build, whose addition wraps.
\<close>

record ScanResults =
  PolicyViolationCount :: "64 word"
  VulnerabilityCount :: "64 word"
  OverallStatus :: string

text \<open>
  Modelled from the spec: the struct \<open>ImageInfo\<close>, its constructor \<open>NewImageInfo\<close> and
  its method \<open>image\<close>. A record starts unscanned and without results, and \<open>image\<close>
  gives back the image it was created for.
\<close>

record ImageInfo =
  ScanStatus :: ScanStatus
  ScanResults :: "ScanResults option"
  ImageSha :: DockerImageSha
  ImageName :: string

definition NewImageInfo :: "DockerImageSha \<Rightarrow> string \<Rightarrow> ImageInfo" where
  "NewImageInfo sha name =
     \<lparr>ScanStatus = ScanStatusUnknown, ScanResults = None, ImageSha = sha, ImageName = name\<rparr>"

definition image :: "ImageInfo \<Rightarrow> Image" where
  "image imageInfo = \<lparr>Name = ImageName imageInfo, Sha = ImageSha imageInfo\<rparr>"

text \<open>
  Modelled from the spec: a container is a name plus the image it runs; a pod has a
  namespace, a name and an ordered list of containers, and its qualified name is
  \<open><namespace>/<name>\<close>.
\<close>

record Container =
  ContainerName :: string
  Image :: Image

record Pod =
  UID :: string
  Namespace :: string
  PodName :: string
  Containers :: "Container list"

definition QualifiedName :: "Pod \<Rightarrow> string" where
  "QualifiedName pod = Namespace pod @ ''/'' @ PodName pod"

text \<open>
  The model. \<open>Pods\<close> is a Go map that is only read, written and deleted by key: a
  partial function. \<open>Images\<close> is a Go map that is also iterated over (to count the
  scans in progress): an association list, written with \<open>AList.update\<close> (replace the
  entry of the key, or add one) and read with \<open>map_of\<close>. The Go map holds pointers;
  every pointer is created by \<open>AddImage\<close> and stored under one key only, so a write
  through the pointer is an update of that key's entry. \<open>ConcurrentScanLimit\<close> is only
  compared, never computed with.
\<close>

record Model =
  Pods :: "string \<rightharpoonup> Pod"
  Images :: "(DockerImageSha \<times> ImageInfo) list"
  ImageScanQueue :: "Image list"
  ImageHubCheckQueue :: "Image list"
  ConcurrentScanLimit :: int

datatype failure =
    MissingImage DockerImageSha
  | WrongStatus DockerImageSha ScanStatus

type_synonym 'a result = "(failure \<times> Model) + 'a"

datatype error = PodNotFound string

subsection \<open>Operations\<close>

definition NewModel :: "int \<Rightarrow> Model" where
  "NewModel concurrentScanLimit =
     \<lparr>Pods = Map.empty, Images = [], ImageScanQueue = [], ImageHubCheckQueue = [],
      ConcurrentScanLimit = concurrentScanLimit\<rparr>"

definition DeletePod :: "string \<Rightarrow> Model \<Rightarrow> Model" where
  "DeletePod podName model = model\<lparr>Pods := (Pods model)(podName := None)\<rparr>"

definition safeGet :: "DockerImageSha \<Rightarrow> Model \<Rightarrow> ImageInfo result" where
  "safeGet sha model =
     (case map_of (Images model) sha of
        None \<Rightarrow> Inl (MissingImage sha, model)
      | Some results \<Rightarrow> Inr results)"

text \<open>The assignment \<open>imageInfo.ScanStatus = status\<close> through the pointer stored under \<open>sha\<close>.\<close>

definition setScanStatus :: "DockerImageSha \<Rightarrow> ImageInfo \<Rightarrow> ScanStatus \<Rightarrow> Model \<Rightarrow> Model" where
  "setScanStatus sha imageInfo status model =
     model\<lparr>Images := AList.update sha (imageInfo\<lparr>ScanStatus := status\<rparr>) (Images model)\<rparr>"

definition addImageToHubCheckQueue :: "DockerImageSha \<Rightarrow> Model \<Rightarrow> Model result" where
  "addImageToHubCheckQueue sha model =
     (case safeGet sha model of
        Inl e \<Rightarrow> Inl e
      | Inr imageInfo \<Rightarrow>
          if ScanStatus imageInfo = ScanStatusUnknown \<or> ScanStatus imageInfo = ScanStatusError
          then Inr ((setScanStatus sha imageInfo ScanStatusInHubCheckQueue model)
                      \<lparr>ImageHubCheckQueue := ImageHubCheckQueue model @ [image imageInfo]\<rparr>)
          else Inl (WrongStatus sha (ScanStatus imageInfo), model))"

definition addImageToScanQueue :: "DockerImageSha \<Rightarrow> Model \<Rightarrow> Model result" where
  "addImageToScanQueue sha model =
     (case safeGet sha model of
        Inl e \<Rightarrow> Inl e
      | Inr imageInfo \<Rightarrow>
          if ScanStatus imageInfo = ScanStatusCheckingHub \<or> ScanStatus imageInfo = ScanStatusError
          then Inr ((setScanStatus sha imageInfo ScanStatusInQueue model)
                      \<lparr>ImageScanQueue := ImageScanQueue model @ [image imageInfo]\<rparr>)
          else Inl (WrongStatus sha (ScanStatus imageInfo), model))"

definition AddImage :: "Image \<Rightarrow> Model \<Rightarrow> Model result" where
  "AddImage img model =
     (case map_of (Images model) (Sha img) of
        None \<Rightarrow>
          addImageToHubCheckQueue (Sha img)
            (model\<lparr>Images := AList.update (Sha img) (NewImageInfo (Sha img) (Name img)) (Images model)\<rparr>)
      | Some _ \<Rightarrow> Inr model)"

text \<open>The loop of \<open>AddPod\<close> over the containers of the pod.\<close>

fun AddPod_loop :: "Container list \<Rightarrow> Model \<Rightarrow> Model result" where
  "AddPod_loop [] model = Inr model"
| "AddPod_loop (newCont # rest) model =
     (case AddImage (Image newCont) model of
        Inl e \<Rightarrow> Inl e
      | Inr model' \<Rightarrow> AddPod_loop rest model')"

definition AddPod :: "Pod \<Rightarrow> Model \<Rightarrow> Model result" where
  "AddPod newPod model =
     (case AddPod_loop (Containers newPod) model of
        Inl e \<Rightarrow> Inl e
      | Inr model' \<Rightarrow> Inr (model'\<lparr>Pods := (Pods model')(QualifiedName newPod \<mapsto> newPod)\<rparr>))"

definition getNextImageFromHubCheckQueue :: "Model \<Rightarrow> (Image option \<times> Model) result" where
  "getNextImageFromHubCheckQueue model =
     (case ImageHubCheckQueue model of
        [] \<Rightarrow> Inr (None, model)
      | first # rest \<Rightarrow>
          (case safeGet (Sha first) model of
             Inl e \<Rightarrow> Inl e
           | Inr imageInfo \<Rightarrow>
               if ScanStatus imageInfo \<noteq> ScanStatusInHubCheckQueue
               then Inl (WrongStatus (Sha first) (ScanStatus imageInfo), model)
               else Inr (Some first,
                         (setScanStatus (Sha first) imageInfo ScanStatusCheckingHub model)
                           \<lparr>ImageHubCheckQueue := rest\<rparr>)))"

text \<open>
  \<open>inProgressScanJobs\<close> ranges over the Go map in an order the language leaves open;
  the list below is in the order of the association list, and only its length is used.
\<close>

definition inProgressScanJobs :: "Model \<Rightarrow> DockerImageSha list" where
  "inProgressScanJobs model =
     map fst (filter (\<lambda>(sha, results).
                        ScanStatus results = ScanStatusRunningScanClient
                        \<or> ScanStatus results = ScanStatusRunningHubScan)
                     (Images model))"

definition inProgressScanCount :: "Model \<Rightarrow> int" where
  "inProgressScanCount model = int (length (inProgressScanJobs model))"

definition inProgressHubScans :: "Model \<Rightarrow> Image list" where
  "inProgressHubScans model =
     map (\<lambda>(sha, imageInfo). image imageInfo)
       (filter (\<lambda>(sha, imageInfo). ScanStatus imageInfo = ScanStatusRunningHubScan) (Images model))"

definition getNextImageFromScanQueue :: "Model \<Rightarrow> (Image option \<times> Model) result" where
  "getNextImageFromScanQueue model =
     (if inProgressScanCount model \<ge> ConcurrentScanLimit model then Inr (None, model)
      else
        (case ImageScanQueue model of
           [] \<Rightarrow> Inr (None, model)
         | first # rest \<Rightarrow>
             (case safeGet (Sha first) model of
                Inl e \<Rightarrow> Inl e
              | Inr imageInfo \<Rightarrow>
                  if ScanStatus imageInfo \<noteq> ScanStatusInQueue
                  then Inl (WrongStatus (Sha first) (ScanStatus imageInfo), model)
                  else Inr (Some first,
                            (setScanStatus (Sha first) imageInfo ScanStatusRunningScanClient model)
                              \<lparr>ImageScanQueue := rest\<rparr>))))"

definition errorRunningScanClient :: "Image \<Rightarrow> Model \<Rightarrow> Model result" where
  "errorRunningScanClient img model =
     (case safeGet (Sha img) model of
        Inl e \<Rightarrow> Inl e
      | Inr results \<Rightarrow>
          if ScanStatus results \<noteq> ScanStatusRunningScanClient
          then Inl (WrongStatus (Sha img) (ScanStatus results), model)
          else addImageToScanQueue (Sha img)
                 (setScanStatus (Sha img) results ScanStatusError model))"

definition finishRunningScanClient :: "Image \<Rightarrow> Model \<Rightarrow> Model result" where
  "finishRunningScanClient img model =
     (case safeGet (Sha img) model of
        Inl e \<Rightarrow> Inl e
      | Inr results \<Rightarrow>
          if ScanStatus results \<noteq> ScanStatusRunningScanClient
          then Inl (WrongStatus (Sha img) (ScanStatus results), model)
          else Inr (setScanStatus (Sha img) results ScanStatusRunningHubScan model))"

text \<open>
  Modelled from the spec: the operation ReportAnalysisComplete. model.go has only a
  commented-out \<open>finishRunningHubScan\<close> (the guard on \<open>ScanStatusRunningHubScan\<close> and the
  move to \<open>ScanStatusComplete\<close>); the code that runs on a finished hub scan is not part of
  the sources. The spec's transition table adds that the scan results are attached.
\<close>

definition finishRunningHubScan :: "Image \<Rightarrow> ScanResults \<Rightarrow> Model \<Rightarrow> Model result" where
  "finishRunningHubScan img scanned model =
     (case safeGet (Sha img) model of
        Inl e \<Rightarrow> Inl e
      | Inr results \<Rightarrow>
          if ScanStatus results \<noteq> ScanStatusRunningHubScan
          then Inl (WrongStatus (Sha img) (ScanStatus results), model)
          else Inr (setScanStatus (Sha img) (results\<lparr>ScanResults := Some scanned\<rparr>)
                      ScanStatusComplete model))"

text \<open>
  The loop of \<open>scanResults\<close>; the accumulator is
  (policyViolationCount, vulnerabilityCount, overallStatus). For a pod that is not
  found, the Go function returns zeros, the empty string and an error; the embedding
  keeps the error.
\<close>

fun scanResults_loop ::
  "Model \<Rightarrow> Container list \<Rightarrow> 64 word \<times> 64 word \<times> string \<Rightarrow> 64 word \<times> 64 word \<times> string" where
  "scanResults_loop model [] acc = acc"
| "scanResults_loop model (container # rest) (policyViolationCount, vulnerabilityCount, overallStatus) =
     (case map_of (Images model) (Sha (Image container)) of
        None \<Rightarrow> scanResults_loop model rest (policyViolationCount, vulnerabilityCount, overallStatus)
      | Some imageInfo \<Rightarrow>
          if ScanStatus imageInfo \<noteq> ScanStatusComplete
          then scanResults_loop model rest (policyViolationCount, vulnerabilityCount, overallStatus)
          else
            (case ScanResults imageInfo of
               None \<Rightarrow> scanResults_loop model rest (policyViolationCount, vulnerabilityCount, overallStatus)
             | Some r \<Rightarrow>
                 scanResults_loop model rest
                   (policyViolationCount + PolicyViolationCount r,
                    vulnerabilityCount + VulnerabilityCount r,
                    if OverallStatus r \<noteq> ''NOT_IN_VIOLATION'' then OverallStatus r
                    else overallStatus)))"

definition scanResults :: "string \<Rightarrow> Model \<Rightarrow> error + (64 word \<times> 64 word \<times> string)" where
  "scanResults podName model =
     (case Pods model podName of
        None \<Rightarrow> Inl (PodNotFound podName)
      | Some pod \<Rightarrow> Inr (scanResults_loop model (Containers pod) (0, 0, '''')))"

subsection \<open>Sequences of operations\<close>

datatype operation =
    OpAddPod Pod
  | OpDeletePod string
  | OpAddImage Image
  | OpAddImageToHubCheckQueue DockerImageSha
  | OpAddImageToScanQueue DockerImageSha
  | OpGetNextImageFromHubCheckQueue
  | OpGetNextImageFromScanQueue
  | OpErrorRunningScanClient Image
  | OpFinishRunningScanClient Image
  | OpFinishRunningHubScan Image ScanResults

fun step :: "operation \<Rightarrow> Model \<Rightarrow> Model result" where
  "step (OpAddPod newPod) model = AddPod newPod model"
| "step (OpDeletePod podName) model = Inr (DeletePod podName model)"
| "step (OpAddImage img) model = AddImage img model"
| "step (OpAddImageToHubCheckQueue sha) model = addImageToHubCheckQueue sha model"
| "step (OpAddImageToScanQueue sha) model = addImageToScanQueue sha model"
| "step OpGetNextImageFromHubCheckQueue model =
     (case getNextImageFromHubCheckQueue model of Inl e \<Rightarrow> Inl e | Inr (_, model') \<Rightarrow> Inr model')"
| "step OpGetNextImageFromScanQueue model =
     (case getNextImageFromScanQueue model of Inl e \<Rightarrow> Inl e | Inr (_, model') \<Rightarrow> Inr model')"
| "step (OpErrorRunningScanClient img) model = errorRunningScanClient img model"
| "step (OpFinishRunningScanClient img) model = finishRunningScanClient img model"
| "step (OpFinishRunningHubScan img scanned) model = finishRunningHubScan img scanned model"

text \<open>A run stops at the first panic, as the process does.\<close>

fun run :: "operation list \<Rightarrow> Model \<Rightarrow> Model result" where
  "run [] model = Inr model"
| "run (opn # rest) model =
     (case step opn model of Inl e \<Rightarrow> Inl e | Inr model' \<Rightarrow> run rest model')"

subsection \<open>Well-formed models\<close>

definition statusOf :: "Model \<Rightarrow> DockerImageSha \<Rightarrow> ScanStatus option" where
  "statusOf model sha = map_option ScanStatus (map_of (Images model) sha)"

definition inProgress :: "DockerImageSha \<times> ImageInfo \<Rightarrow> bool" where
  "inProgress entry \<longleftrightarrow>
     ScanStatus (snd entry) = ScanStatusRunningScanClient
     \<or> ScanStatus (snd entry) = ScanStatusRunningHubScan"

text \<open>
  What every run from \<open>NewModel\<close> keeps: one record per sha, stored under its own sha;
  a queued image has the status of its queue; no sha twice in a queue; and the scans
  in progress stay within the limit (within zero for a negative limit).
\<close>

definition model_inv :: "Model \<Rightarrow> bool" where
  "model_inv model \<longleftrightarrow>
     distinct (map fst (Images model))
     \<and> list_all (\<lambda>entry. ImageSha (snd entry) = fst entry) (Images model)
     \<and> list_all (\<lambda>img. statusOf model (Sha img) = Some ScanStatusInHubCheckQueue)
          (ImageHubCheckQueue model)
     \<and> list_all (\<lambda>img. statusOf model (Sha img) = Some ScanStatusInQueue)
          (ImageScanQueue model)
     \<and> distinct (map Sha (ImageHubCheckQueue model))
     \<and> distinct (map Sha (ImageScanQueue model))
     \<and> inProgressScanCount model \<le> max 0 (ConcurrentScanLimit model)"

subsection \<open>The aggregate in the words of the specification\<close>

text \<open>
  The results of the images that the containers refer to, where the image is
  registered, its status is \<open>ScanStatusComplete\<close> and it has results: one entry per
  container, in container order. The overall status is the last status among them
  that is not the sentinel, or the start value when there is none.
\<close>

definition completedResults :: "Model \<Rightarrow> Container list \<Rightarrow> ScanResults list" where
  "completedResults model containers =
     List.map_filter
       (\<lambda>container.
          case map_of (Images model) (Sha (Image container)) of
            None \<Rightarrow> None
          | Some imageInfo \<Rightarrow>
              if ScanStatus imageInfo = ScanStatusComplete then ScanResults imageInfo else None)
       containers"

definition lastViolation :: "string \<Rightarrow> ScanResults list \<Rightarrow> string" where
  "lastViolation start results =
     (case filter (\<lambda>status. status \<noteq> ''NOT_IN_VIOLATION'') (map OverallStatus results) of
        [] \<Rightarrow> start
      | statuses \<Rightarrow> last statuses)"

subsection \<open>Comparing two models at one sha\<close>

text \<open>
  The entries stored under the sha, the occurrences of the sha in the hub-check queue,
  the scan queue and the limit are the same in both models.
\<close>

definition same_for :: "DockerImageSha \<Rightarrow> Model \<Rightarrow> Model \<Rightarrow> bool" where
  "same_for sha m m' \<longleftrightarrow>
     filter (\<lambda>entry. fst entry = sha) (Images m') = filter (\<lambda>entry. fst entry = sha) (Images m)
     \<and> map_of (Images m') sha = map_of (Images m) sha
     \<and> filter (\<lambda>img. Sha img = sha) (ImageHubCheckQueue m')
         = filter (\<lambda>img. Sha img = sha) (ImageHubCheckQueue m)
     \<and> ImageScanQueue m' = ImageScanQueue m
     \<and> ConcurrentScanLimit m' = ConcurrentScanLimit m"

subsection \<open>Concrete images, pods, runs and models\<close>

definition imageA :: Image where
  "imageA = \<lparr>Name = ''registry/a:1'', Sha = ''sha-a''\<rparr>"

definition imageB :: Image where
  "imageB = \<lparr>Name = ''registry/b:1'', Sha = ''sha-b''\<rparr>"

definition imageC :: Image where
  "imageC = \<lparr>Name = ''registry/c:1'', Sha = ''sha-c''\<rparr>"

definition scanned_clean :: ScanResults where
  "scanned_clean =
     \<lparr>PolicyViolationCount = 0, VulnerabilityCount = 1, OverallStatus = ''NOT_IN_VIOLATION''\<rparr>"

definition scanned_violating :: ScanResults where
  "scanned_violating =
     \<lparr>PolicyViolationCount = 2, VulnerabilityCount = 5, OverallStatus = ''IN_VIOLATION''\<rparr>"

definition podP :: Pod where
  "podP = \<lparr>UID = ''uid-p'', Namespace = ''ns'', PodName = ''p'',
           Containers = [\<lparr>ContainerName = ''main'', Image = imageA\<rparr>]\<rparr>"

definition podAB :: Pod where
  "podAB = \<lparr>UID = ''uid-ab'', Namespace = ''ns'', PodName = ''ab'',
            Containers = [\<lparr>ContainerName = ''first'', Image = imageA\<rparr>,
                          \<lparr>ContainerName = ''second'', Image = imageB\<rparr>]\<rparr>"

definition record_of :: "Image \<Rightarrow> ScanStatus \<Rightarrow> DockerImageSha \<times> ImageInfo" where
  "record_of img status =
     (Sha img, \<lparr>ScanStatus = status, ScanResults = None, ImageSha = Sha img, ImageName = Name img\<rparr>)"

definition model_of :: "(DockerImageSha \<times> ImageInfo) list \<Rightarrow> Image list \<Rightarrow> Image list \<Rightarrow> Model" where
  "model_of records scanQueue hubCheckQueue =
     \<lparr>Pods = Map.empty, Images = records, ImageScanQueue = scanQueue,
      ImageHubCheckQueue = hubCheckQueue, ConcurrentScanLimit = 1\<rparr>"

text \<open>
  Runs from \<open>NewModel\<close> and the models they end in.
\<close>

definition ops_one_running :: "operation list" where
  "ops_one_running =
     [OpAddImage imageA, OpAddImage imageB,
      OpGetNextImageFromHubCheckQueue, OpGetNextImageFromHubCheckQueue,
      OpAddImageToScanQueue ''sha-a'', OpAddImageToScanQueue ''sha-b'',
      OpGetNextImageFromScanQueue]"

definition model_one_running :: Model where
  "model_one_running =
     \<lparr>Pods = Map.empty,
      Images =
        [(''sha-a'', \<lparr>ScanStatus = ScanStatusRunningScanClient, ScanResults = None,
                      ImageSha = ''sha-a'', ImageName = ''registry/a:1''\<rparr>),
         (''sha-b'', \<lparr>ScanStatus = ScanStatusInQueue, ScanResults = None,
                      ImageSha = ''sha-b'', ImageName = ''registry/b:1''\<rparr>)],
      ImageScanQueue = [imageB],
      ImageHubCheckQueue = [],
      ConcurrentScanLimit = 1\<rparr>"

definition ops_both_queues :: "operation list" where
  "ops_both_queues =
     [OpAddImage imageA, OpAddImage imageB, OpAddImage imageC,
      OpGetNextImageFromHubCheckQueue, OpAddImageToScanQueue ''sha-a'']"

definition model_both_queues :: Model where
  "model_both_queues =
     \<lparr>Pods = Map.empty,
      Images =
        [(''sha-a'', \<lparr>ScanStatus = ScanStatusInQueue, ScanResults = None,
                      ImageSha = ''sha-a'', ImageName = ''registry/a:1''\<rparr>),
         (''sha-b'', \<lparr>ScanStatus = ScanStatusInHubCheckQueue, ScanResults = None,
                      ImageSha = ''sha-b'', ImageName = ''registry/b:1''\<rparr>),
         (''sha-c'', \<lparr>ScanStatus = ScanStatusInHubCheckQueue, ScanResults = None,
                      ImageSha = ''sha-c'', ImageName = ''registry/c:1''\<rparr>)],
      ImageScanQueue = [imageA],
      ImageHubCheckQueue = [imageB, imageC],
      ConcurrentScanLimit = 2\<rparr>"

definition ops_hub_scan_running :: "operation list" where
  "ops_hub_scan_running = ops_one_running @ [OpFinishRunningScanClient imageA]"

definition model_hub_scan_running :: Model where
  "model_hub_scan_running =
     \<lparr>Pods = Map.empty,
      Images =
        [(''sha-a'', \<lparr>ScanStatus = ScanStatusRunningHubScan, ScanResults = None,
                      ImageSha = ''sha-a'', ImageName = ''registry/a:1''\<rparr>),
         (''sha-b'', \<lparr>ScanStatus = ScanStatusInQueue, ScanResults = None,
                      ImageSha = ''sha-b'', ImageName = ''registry/b:1''\<rparr>)],
      ImageScanQueue = [imageB],
      ImageHubCheckQueue = [],
      ConcurrentScanLimit = 1\<rparr>"

definition model_pod_added :: Model where
  "model_pod_added =
     \<lparr>Pods = [''ns/p'' \<mapsto> podP],
      Images =
        [(''sha-a'', \<lparr>ScanStatus = ScanStatusInHubCheckQueue, ScanResults = None,
                      ImageSha = ''sha-a'', ImageName = ''registry/a:1''\<rparr>)],
      ImageScanQueue = [],
      ImageHubCheckQueue = [imageA],
      ConcurrentScanLimit = 1\<rparr>"

definition ops_scanning :: "operation list" where
  "ops_scanning =
     [OpAddImage imageA, OpGetNextImageFromHubCheckQueue, OpAddImageToScanQueue ''sha-a'',
      OpGetNextImageFromScanQueue]"

definition ops_gate_closed_hub_waiting :: "operation list" where
  "ops_gate_closed_hub_waiting =
     [OpAddImage imageA, OpAddImage imageB, OpGetNextImageFromHubCheckQueue,
      OpAddImageToScanQueue ''sha-a'', OpGetNextImageFromScanQueue]"

definition ops_both_complete :: "operation list" where
  "ops_both_complete =
     [OpAddPod podAB,
      OpGetNextImageFromHubCheckQueue, OpGetNextImageFromHubCheckQueue,
      OpAddImageToScanQueue ''sha-a'', OpAddImageToScanQueue ''sha-b'',
      OpGetNextImageFromScanQueue, OpGetNextImageFromScanQueue,
      OpFinishRunningScanClient imageA, OpFinishRunningScanClient imageB,
      OpFinishRunningHubScan imageA scanned_violating,
      OpFinishRunningHubScan imageB scanned_clean]"

definition model_both_complete :: Model where
  "model_both_complete =
     \<lparr>Pods = [''ns/ab'' \<mapsto> podAB],
      Images =
        [(''sha-a'', \<lparr>ScanStatus = ScanStatusComplete, ScanResults = Some scanned_violating,
                      ImageSha = ''sha-a'', ImageName = ''registry/a:1''\<rparr>),
         (''sha-b'', \<lparr>ScanStatus = ScanStatusComplete, ScanResults = Some scanned_clean,
                      ImageSha = ''sha-b'', ImageName = ''registry/b:1''\<rparr>)],
      ImageScanQueue = [],
      ImageHubCheckQueue = [],
      ConcurrentScanLimit = 2\<rparr>"

text \<open>
  A run that brings \<open>n\<close> images to \<open>ScanStatusCheckingHub\<close>: the \<open>k\<close>-th image has the sha
  \<open>aa\<dots>a\<close> of length \<open>k\<close>; each is registered and taken from the hub-check queue at once.
\<close>

definition nth_image :: "nat \<Rightarrow> Image" where
  "nth_image k = \<lparr>Name = ''image'', Sha = replicate k CHR ''a''\<rparr>"

definition check_all :: "nat \<Rightarrow> operation list" where
  "check_all n =
     concat (map (\<lambda>k. [OpAddImage (nth_image k), OpGetNextImageFromHubCheckQueue]) [0..<n])"

definition all_checking :: "int \<Rightarrow> nat \<Rightarrow> Model" where
  "all_checking N n =
     \<lparr>Pods = Map.empty,
      Images = map (\<lambda>k. record_of (nth_image k) ScanStatusCheckingHub) [0..<n],
      ImageScanQueue = [], ImageHubCheckQueue = [], ConcurrentScanLimit = N\<rparr>"

subsection \<open>Facts about the association list and the invariant\<close>

lemma map_of_update_if:
  "map_of (AList.update k v al) k' = (if k' = k then Some v else map_of al k')"
  by (simp add: update_conv')

lemma list_all_update:
  "list_all Q al \<Longrightarrow> Q (k, v) \<Longrightarrow> list_all Q (AList.update k v al)"
  by (induction al) auto

lemma filter_update_present:
  "distinct (map fst al) \<Longrightarrow> map_of al k = Some v \<Longrightarrow>
   length (filter P (AList.update k v' al)) + (if P (k, v) then 1 else 0)
     = length (filter P al) + (if P (k, v') then 1 else 0)"
proof (induction al)
  case Nil
  then show ?case by simp
next
  case (Cons p ps)
  show ?case
  proof (cases "fst p = k")
    case True
    with Cons.prems have "p = (k, v)" by (cases p) auto
    with True show ?thesis by simp
  next
    case False
    with Cons show ?thesis by auto
  qed
qed

lemma filter_update_absent:
  "map_of al k = None \<Longrightarrow>
   length (filter P (AList.update k v al)) = length (filter P al) + (if P (k, v) then 1 else 0)"
  by (induction al) (auto split: if_splits)

lemma statusOf_setScanStatus:
  "statusOf (setScanStatus sha info st m) k = (if k = sha then Some st else statusOf m k)"
  by (simp add: statusOf_def setScanStatus_def map_of_update_if)

lemma inProgressScanCount_filter:
  "inProgressScanCount m = int (length (filter inProgress (Images m)))"
proof -
  have "(\<lambda>(sha, results). ScanStatus results = ScanStatusRunningScanClient
           \<or> ScanStatus results = ScanStatusRunningHubScan) = inProgress"
    by (auto simp: inProgress_def fun_eq_iff)
  then show ?thesis
    by (simp add: inProgressScanCount_def inProgressScanJobs_def)
qed

lemma count_setScanStatus:
  assumes "distinct (map fst (Images m))" and "map_of (Images m) sha = Some old"
  shows "inProgressScanCount (setScanStatus sha info st m)
           + (if inProgress (sha, old) then 1 else 0)
         = inProgressScanCount m + (if inProgress (sha, info\<lparr>ScanStatus := st\<rparr>) then 1 else 0)"
  using filter_update_present [OF assms, of inProgress "info\<lparr>ScanStatus := st\<rparr>"]
  by (simp add: inProgressScanCount_filter setScanStatus_def split: if_splits)

lemma queued_status:
  assumes "list_all (\<lambda>img. statusOf m (Sha img) = Some st) q" and "statusOf m sha \<noteq> Some st"
  shows "sha \<notin> Sha ` set q"
  using assms by (auto simp: list_all_iff)

lemma stored_sha:
  assumes "list_all (\<lambda>entry. ImageSha (snd entry) = fst entry) al" and "map_of al sha = Some info"
  shows "ImageSha info = sha"
  using assms by (auto simp: list_all_iff dest!: map_of_SomeD)

lemma inv_setScanStatus:
  assumes inv: "model_inv m"
    and got: "map_of (Images m) sha = Some old"
    and same: "ImageSha info = ImageSha old"
    and hub: "sha \<notin> Sha ` set (ImageHubCheckQueue m)"
    and scan: "sha \<notin> Sha ` set (ImageScanQueue m)"
    and cap: "inProgress (sha, info\<lparr>ScanStatus := st\<rparr>) \<Longrightarrow>
                inProgress (sha, old) \<or> inProgressScanCount m < ConcurrentScanLimit m"
  shows "model_inv (setScanStatus sha info st m)"
proof -
  let ?m = "setScanStatus sha info st m"
  have d: "distinct (map fst (Images m))" using inv by (simp add: model_inv_def)
  have q [simp]: "ImageHubCheckQueue ?m = ImageHubCheckQueue m" "ImageScanQueue ?m = ImageScanQueue m"
    "ConcurrentScanLimit ?m = ConcurrentScanLimit m"
    by (simp_all add: setScanStatus_def)
  have 1: "distinct (map fst (Images ?m))"
    using d by (simp add: setScanStatus_def distinct_update)
  have "ImageSha old = sha" using inv got by (auto simp: model_inv_def intro: stored_sha)
  then have 2: "list_all (\<lambda>entry. ImageSha (snd entry) = fst entry) (Images ?m)"
    using inv same by (simp add: setScanStatus_def model_inv_def list_all_update)
  have 3: "list_all (\<lambda>img. statusOf ?m (Sha img) = Some ScanStatusInHubCheckQueue) (ImageHubCheckQueue ?m)"
    using inv hub by (auto simp: model_inv_def list_all_iff statusOf_setScanStatus)
  have 4: "list_all (\<lambda>img. statusOf ?m (Sha img) = Some ScanStatusInQueue) (ImageScanQueue ?m)"
    using inv scan by (auto simp: model_inv_def list_all_iff statusOf_setScanStatus)
  have 5: "inProgressScanCount ?m \<le> max 0 (ConcurrentScanLimit ?m)"
    using count_setScanStatus [OF d got, of info st] cap inv
    by (auto simp: model_inv_def split: if_splits)
  show ?thesis
    using 1 2 3 4 5 inv by (simp add: model_inv_def)
qed

lemma inv_not_in_hub:
  "model_inv m \<Longrightarrow> statusOf m sha \<noteq> Some ScanStatusInHubCheckQueue \<Longrightarrow>
   sha \<notin> Sha ` set (ImageHubCheckQueue m)"
  by (auto simp: model_inv_def list_all_iff)

lemma inv_not_in_scan:
  "model_inv m \<Longrightarrow> statusOf m sha \<noteq> Some ScanStatusInQueue \<Longrightarrow>
   sha \<notin> Sha ` set (ImageScanQueue m)"
  by (auto simp: model_inv_def list_all_iff)

lemma inv_NewModel: "model_inv (NewModel N)"
  by (simp add: model_inv_def NewModel_def inProgressScanCount_def inProgressScanJobs_def)

lemma statusOf_frame:
  "statusOf (m\<lparr>Pods := p\<rparr>) = statusOf m"
  "statusOf (m\<lparr>ImageHubCheckQueue := q\<rparr>) = statusOf m"
  "statusOf (m\<lparr>ImageScanQueue := q\<rparr>) = statusOf m"
  by (simp_all add: statusOf_def fun_eq_iff)

lemma count_frame:
  "inProgressScanCount (m\<lparr>Pods := p\<rparr>) = inProgressScanCount m"
  "inProgressScanCount (m\<lparr>ImageHubCheckQueue := q\<rparr>) = inProgressScanCount m"
  "inProgressScanCount (m\<lparr>ImageScanQueue := q\<rparr>) = inProgressScanCount m"
  by (simp_all add: inProgressScanCount_def inProgressScanJobs_def)

lemma inv_Pods_update: "model_inv (m\<lparr>Pods := p\<rparr>) = model_inv m"
  by (simp add: model_inv_def statusOf_frame count_frame)

lemma inv_push_hub:
  assumes "model_inv m" and "statusOf m (Sha img) = Some ScanStatusInHubCheckQueue"
    and "Sha img \<notin> Sha ` set (ImageHubCheckQueue m)"
  shows "model_inv (m\<lparr>ImageHubCheckQueue := ImageHubCheckQueue m @ [img]\<rparr>)"
  using assms by (simp add: model_inv_def statusOf_frame count_frame)

lemma inv_push_scan:
  assumes "model_inv m" and "statusOf m (Sha img) = Some ScanStatusInQueue"
    and "Sha img \<notin> Sha ` set (ImageScanQueue m)"
  shows "model_inv (m\<lparr>ImageScanQueue := ImageScanQueue m @ [img]\<rparr>)"
  using assms by (simp add: model_inv_def statusOf_frame count_frame)

lemma inv_pop_hub:
  assumes "model_inv m" and "ImageHubCheckQueue m = first # rest"
  shows "model_inv (m\<lparr>ImageHubCheckQueue := rest\<rparr>)"
    and "Sha first \<notin> Sha ` set rest"
    and "statusOf m (Sha first) = Some ScanStatusInHubCheckQueue"
  using assms by (simp_all add: model_inv_def statusOf_frame count_frame)

lemma inv_pop_scan:
  assumes "model_inv m" and "ImageScanQueue m = first # rest"
  shows "model_inv (m\<lparr>ImageScanQueue := rest\<rparr>)"
    and "Sha first \<notin> Sha ` set rest"
    and "statusOf m (Sha first) = Some ScanStatusInQueue"
  using assms by (simp_all add: model_inv_def statusOf_frame count_frame)

lemma inv_new_record:
  assumes inv: "model_inv m" and new: "map_of (Images m) sha = None"
  shows "model_inv (m\<lparr>Images := AList.update sha (NewImageInfo sha name) (Images m)\<rparr>)"
proof -
  let ?m = "m\<lparr>Images := AList.update sha (NewImageInfo sha name) (Images m)\<rparr>"
  have st: "statusOf ?m k = (if k = sha then Some ScanStatusUnknown else statusOf m k)" for k
    by (simp add: statusOf_def map_of_update_if NewImageInfo_def)
  have old: "statusOf m sha = None" using new by (simp add: statusOf_def)
  have 1: "distinct (map fst (Images ?m))"
    using inv by (simp add: model_inv_def distinct_update)
  have 2: "list_all (\<lambda>entry. ImageSha (snd entry) = fst entry) (Images ?m)"
    using inv by (simp add: model_inv_def list_all_update NewImageInfo_def)
  have 3: "list_all (\<lambda>img. statusOf ?m (Sha img) = Some ScanStatusInHubCheckQueue) (ImageHubCheckQueue ?m)"
    using inv old by (auto simp: model_inv_def list_all_iff st)
  have 4: "list_all (\<lambda>img. statusOf ?m (Sha img) = Some ScanStatusInQueue) (ImageScanQueue ?m)"
    using inv old by (auto simp: model_inv_def list_all_iff st)
  have 5: "inProgressScanCount ?m \<le> max 0 (ConcurrentScanLimit ?m)"
    using inv filter_update_absent [OF new, of inProgress "NewImageInfo sha name"]
    by (simp add: model_inv_def inProgressScanCount_filter inProgress_def NewImageInfo_def)
  show ?thesis
    using 1 2 3 4 5 inv by (simp add: model_inv_def)
qed

subsection \<open>Every operation keeps the invariant\<close>

lemma statusOf_Some:
  "map_of (Images m) sha = Some info \<Longrightarrow> statusOf m sha = Some (ScanStatus info)"
  by (simp add: statusOf_def)

lemma inv_stored_sha:
  "model_inv m \<Longrightarrow> map_of (Images m) sha = Some info \<Longrightarrow> ImageSha info = sha"
  by (auto simp: model_inv_def intro: stored_sha)

lemma setScanStatus_frame:
  "ImageHubCheckQueue (setScanStatus sha info st m) = ImageHubCheckQueue m"
  "ImageScanQueue (setScanStatus sha info st m) = ImageScanQueue m"
  "ConcurrentScanLimit (setScanStatus sha info st m) = ConcurrentScanLimit m"
  "Pods (setScanStatus sha info st m) = Pods m"
  by (simp_all add: setScanStatus_def)

lemma inv_addImageToHubCheckQueue:
  assumes inv: "model_inv m" and ok: "addImageToHubCheckQueue sha m = Inr m'"
  shows "model_inv m'"
proof -
  from ok obtain info where got: "map_of (Images m) sha = Some info"
    and st: "ScanStatus info = ScanStatusUnknown \<or> ScanStatus info = ScanStatusError"
    and m': "m' = (setScanStatus sha info ScanStatusInHubCheckQueue m)
                    \<lparr>ImageHubCheckQueue := ImageHubCheckQueue m @ [image info]\<rparr>"
    by (auto simp: addImageToHubCheckQueue_def safeGet_def split: option.splits if_splits)
  let ?m1 = "setScanStatus sha info ScanStatusInHubCheckQueue m"
  have s: "statusOf m sha = Some (ScanStatus info)" using got by (rule statusOf_Some)
  have nh: "sha \<notin> Sha ` set (ImageHubCheckQueue m)"
    using inv s st by (intro inv_not_in_hub) auto
  have ns: "sha \<notin> Sha ` set (ImageScanQueue m)"
    using inv s st by (intro inv_not_in_scan) auto
  have 1: "model_inv ?m1"
    by (rule inv_setScanStatus [OF inv got _ nh ns]) (simp_all add: inProgress_def)
  have sha: "Sha (image info) = sha"
    using inv_stored_sha [OF inv got] by (simp add: image_def)
  have "model_inv (?m1\<lparr>ImageHubCheckQueue := ImageHubCheckQueue ?m1 @ [image info]\<rparr>)"
    using 1 nh by (intro inv_push_hub) (simp_all add: sha statusOf_setScanStatus setScanStatus_frame)
  then show ?thesis by (simp add: m' setScanStatus_frame)
qed

lemma inv_addImageToScanQueue:
  assumes inv: "model_inv m" and ok: "addImageToScanQueue sha m = Inr m'"
  shows "model_inv m'"
proof -
  from ok obtain info where got: "map_of (Images m) sha = Some info"
    and st: "ScanStatus info = ScanStatusCheckingHub \<or> ScanStatus info = ScanStatusError"
    and m': "m' = (setScanStatus sha info ScanStatusInQueue m)
                    \<lparr>ImageScanQueue := ImageScanQueue m @ [image info]\<rparr>"
    by (auto simp: addImageToScanQueue_def safeGet_def split: option.splits if_splits)
  let ?m1 = "setScanStatus sha info ScanStatusInQueue m"
  have s: "statusOf m sha = Some (ScanStatus info)" using got by (rule statusOf_Some)
  have nh: "sha \<notin> Sha ` set (ImageHubCheckQueue m)"
    using inv s st by (intro inv_not_in_hub) auto
  have ns: "sha \<notin> Sha ` set (ImageScanQueue m)"
    using inv s st by (intro inv_not_in_scan) auto
  have 1: "model_inv ?m1"
    by (rule inv_setScanStatus [OF inv got _ nh ns]) (simp_all add: inProgress_def)
  have sha: "Sha (image info) = sha"
    using inv_stored_sha [OF inv got] by (simp add: image_def)
  have "model_inv (?m1\<lparr>ImageScanQueue := ImageScanQueue ?m1 @ [image info]\<rparr>)"
    using 1 ns by (intro inv_push_scan) (simp_all add: sha statusOf_setScanStatus setScanStatus_frame)
  then show ?thesis by (simp add: m' setScanStatus_frame)
qed

lemma inv_AddImage:
  assumes inv: "model_inv m" and ok: "AddImage img m = Inr m'"
  shows "model_inv m'"
proof (cases "map_of (Images m) (Sha img)")
  case None
  with ok have "addImageToHubCheckQueue (Sha img)
      (m\<lparr>Images := AList.update (Sha img) (NewImageInfo (Sha img) (Name img)) (Images m)\<rparr>) = Inr m'"
    by (simp add: AddImage_def)
  with inv_new_record [OF inv None] show ?thesis by (rule inv_addImageToHubCheckQueue)
next
  case (Some info)
  with ok inv show ?thesis by (simp add: AddImage_def)
qed

lemma inv_AddPod_loop:
  "model_inv m \<Longrightarrow> AddPod_loop cs m = Inr m' \<Longrightarrow> model_inv m'"
proof (induction cs arbitrary: m)
  case Nil
  then show ?case by simp
next
  case (Cons c cs)
  then show ?case by (auto split: sum.splits dest: inv_AddImage)
qed

lemma inv_AddPod:
  "model_inv m \<Longrightarrow> AddPod pod m = Inr m' \<Longrightarrow> model_inv m'"
  by (auto simp: AddPod_def inv_Pods_update split: sum.splits dest: inv_AddPod_loop)

lemma inv_DeletePod: "model_inv m \<Longrightarrow> model_inv (DeletePod podName m)"
  by (simp add: DeletePod_def inv_Pods_update)

lemma setScanStatus_queue_commute:
  "(setScanStatus sha info st m)\<lparr>ImageHubCheckQueue := q\<rparr>
     = setScanStatus sha info st (m\<lparr>ImageHubCheckQueue := q\<rparr>)"
  "(setScanStatus sha info st m)\<lparr>ImageScanQueue := q\<rparr>
     = setScanStatus sha info st (m\<lparr>ImageScanQueue := q\<rparr>)"
  by (simp_all add: setScanStatus_def)

lemma inv_getNextImageFromHubCheckQueue:
  assumes inv: "model_inv m" and ok: "getNextImageFromHubCheckQueue m = Inr (r, m')"
  shows "model_inv m'"
proof (cases "ImageHubCheckQueue m")
  case Nil
  with ok inv show ?thesis by (simp add: getNextImageFromHubCheckQueue_def)
next
  case (Cons first rest)
  with ok obtain info where got: "map_of (Images m) (Sha first) = Some info"
    and m': "m' = (setScanStatus (Sha first) info ScanStatusCheckingHub m)\<lparr>ImageHubCheckQueue := rest\<rparr>"
    by (auto simp: getNextImageFromHubCheckQueue_def safeGet_def split: option.splits if_splits)
  let ?m0 = "m\<lparr>ImageHubCheckQueue := rest\<rparr>"
  note pop = inv_pop_hub [OF inv Cons]
  have s: "statusOf ?m0 (Sha first) = Some ScanStatusInHubCheckQueue"
    using pop(3) by (simp add: statusOf_frame)
  have "model_inv (setScanStatus (Sha first) info ScanStatusCheckingHub ?m0)"
  proof (rule inv_setScanStatus [OF pop(1), where old = info])
    show "map_of (Images ?m0) (Sha first) = Some info" using got by simp
    show "Sha first \<notin> Sha ` set (ImageHubCheckQueue ?m0)" using pop(2) by simp
    show "Sha first \<notin> Sha ` set (ImageScanQueue ?m0)"
      using pop(1) s by (intro inv_not_in_scan) simp_all
  qed (simp_all add: inProgress_def)
  then show ?thesis by (simp add: m' setScanStatus_queue_commute)
qed

lemma inv_getNextImageFromScanQueue:
  assumes inv: "model_inv m" and ok: "getNextImageFromScanQueue m = Inr (r, m')"
  shows "model_inv m'"
proof (cases "inProgressScanCount m \<ge> ConcurrentScanLimit m \<or> ImageScanQueue m = []")
  case True
  with ok inv show ?thesis by (auto simp: getNextImageFromScanQueue_def split: if_splits)
next
  case False
  then obtain first rest where q: "ImageScanQueue m = first # rest"
    and cap: "inProgressScanCount m < ConcurrentScanLimit m"
    by (cases "ImageScanQueue m") auto
  with ok obtain info where got: "map_of (Images m) (Sha first) = Some info"
    and m': "m' = (setScanStatus (Sha first) info ScanStatusRunningScanClient m)\<lparr>ImageScanQueue := rest\<rparr>"
    by (auto simp: getNextImageFromScanQueue_def safeGet_def split: option.splits if_splits)
  let ?m0 = "m\<lparr>ImageScanQueue := rest\<rparr>"
  note pop = inv_pop_scan [OF inv q]
  have s: "statusOf ?m0 (Sha first) = Some ScanStatusInQueue"
    using pop(3) by (simp add: statusOf_frame)
  have "model_inv (setScanStatus (Sha first) info ScanStatusRunningScanClient ?m0)"
  proof (rule inv_setScanStatus [OF pop(1), where old = info])
    show "map_of (Images ?m0) (Sha first) = Some info" using got by simp
    show "Sha first \<notin> Sha ` set (ImageScanQueue ?m0)" using pop(2) by simp
    show "Sha first \<notin> Sha ` set (ImageHubCheckQueue ?m0)"
      using pop(1) s by (intro inv_not_in_hub) simp_all
    show "inProgress (Sha first, info) \<or> inProgressScanCount ?m0 < ConcurrentScanLimit ?m0"
      using cap by (simp add: count_frame)
  qed simp
  then show ?thesis by (simp add: m' setScanStatus_queue_commute)
qed

lemma inv_errorRunningScanClient:
  assumes inv: "model_inv m" and ok: "errorRunningScanClient img m = Inr m'"
  shows "model_inv m'"
proof -
  from ok obtain info where got: "map_of (Images m) (Sha img) = Some info"
    and st: "ScanStatus info = ScanStatusRunningScanClient"
    and m': "addImageToScanQueue (Sha img) (setScanStatus (Sha img) info ScanStatusError m) = Inr m'"
    by (auto simp: errorRunningScanClient_def safeGet_def split: option.splits if_splits)
  have s: "statusOf m (Sha img) = Some ScanStatusRunningScanClient"
    using statusOf_Some [OF got] st by simp
  have "model_inv (setScanStatus (Sha img) info ScanStatusError m)"
  proof (rule inv_setScanStatus [OF inv got])
    show "Sha img \<notin> Sha ` set (ImageHubCheckQueue m)"
      using inv s by (intro inv_not_in_hub) simp_all
    show "Sha img \<notin> Sha ` set (ImageScanQueue m)"
      using inv s by (intro inv_not_in_scan) simp_all
  qed (simp_all add: inProgress_def)
  then show ?thesis using m' by (rule inv_addImageToScanQueue)
qed

lemma inv_finishRunningScanClient:
  assumes inv: "model_inv m" and ok: "finishRunningScanClient img m = Inr m'"
  shows "model_inv m'"
proof -
  from ok obtain info where got: "map_of (Images m) (Sha img) = Some info"
    and st: "ScanStatus info = ScanStatusRunningScanClient"
    and m': "m' = setScanStatus (Sha img) info ScanStatusRunningHubScan m"
    by (auto simp: finishRunningScanClient_def safeGet_def split: option.splits if_splits)
  have s: "statusOf m (Sha img) = Some ScanStatusRunningScanClient"
    using statusOf_Some [OF got] st by simp
  have "model_inv (setScanStatus (Sha img) info ScanStatusRunningHubScan m)"
  proof (rule inv_setScanStatus [OF inv got])
    show "Sha img \<notin> Sha ` set (ImageHubCheckQueue m)"
      using inv s by (intro inv_not_in_hub) simp_all
    show "Sha img \<notin> Sha ` set (ImageScanQueue m)"
      using inv s by (intro inv_not_in_scan) simp_all
  qed (simp_all add: inProgress_def st)
  then show ?thesis by (simp add: m')
qed

lemma inv_finishRunningHubScan:
  assumes inv: "model_inv m" and ok: "finishRunningHubScan img scanned m = Inr m'"
  shows "model_inv m'"
proof -
  from ok obtain info where got: "map_of (Images m) (Sha img) = Some info"
    and st: "ScanStatus info = ScanStatusRunningHubScan"
    and m': "m' = setScanStatus (Sha img) (info\<lparr>ScanResults := Some scanned\<rparr>) ScanStatusComplete m"
    by (auto simp: finishRunningHubScan_def safeGet_def split: option.splits if_splits)
  have s: "statusOf m (Sha img) = Some ScanStatusRunningHubScan"
    using statusOf_Some [OF got] st by simp
  have "model_inv (setScanStatus (Sha img) (info\<lparr>ScanResults := Some scanned\<rparr>) ScanStatusComplete m)"
  proof (rule inv_setScanStatus [OF inv got])
    show "Sha img \<notin> Sha ` set (ImageHubCheckQueue m)"
      using inv s by (intro inv_not_in_hub) simp_all
    show "Sha img \<notin> Sha ` set (ImageScanQueue m)"
      using inv s by (intro inv_not_in_scan) simp_all
  qed (simp_all add: inProgress_def)
  then show ?thesis by (simp add: m')
qed

lemma inv_step:
  assumes "model_inv m" and "step opn m = Inr m'"
  shows "model_inv m'"
proof (cases opn)
  case (OpAddPod pod)
  with assms show ?thesis by (auto dest: inv_AddPod)
next
  case (OpDeletePod podName)
  with assms show ?thesis by (auto simp: inv_DeletePod)
next
  case (OpAddImage img)
  with assms show ?thesis by (auto dest: inv_AddImage)
next
  case (OpAddImageToHubCheckQueue sha)
  with assms show ?thesis by (auto dest: inv_addImageToHubCheckQueue)
next
  case (OpAddImageToScanQueue sha)
  with assms show ?thesis by (auto dest: inv_addImageToScanQueue)
next
  case OpGetNextImageFromHubCheckQueue
  with assms show ?thesis
    by (auto split: sum.splits prod.splits dest: inv_getNextImageFromHubCheckQueue)
next
  case OpGetNextImageFromScanQueue
  with assms show ?thesis
    by (auto split: sum.splits prod.splits dest: inv_getNextImageFromScanQueue)
next
  case (OpErrorRunningScanClient img)
  with assms show ?thesis by (auto dest: inv_errorRunningScanClient)
next
  case (OpFinishRunningScanClient img)
  with assms show ?thesis by (auto dest: inv_finishRunningScanClient)
next
  case (OpFinishRunningHubScan img scanned)
  with assms show ?thesis by (auto dest: inv_finishRunningHubScan)
qed

lemma inv_run:
  "model_inv m \<Longrightarrow> run ops m = Inr m' \<Longrightarrow> model_inv m'"
proof (induction ops arbitrary: m)
  case Nil
  then show ?case by simp
next
  case (Cons opn ops)
  then show ?case by (auto split: sum.splits dest: inv_step)
qed

lemma inv_reachable: "run ops (NewModel N) = Inr m \<Longrightarrow> model_inv m"
  using inv_NewModel by (rule inv_run)

text \<open>No operation writes \<open>ConcurrentScanLimit\<close>.\<close>

lemma limit_addImageToHubCheckQueue:
  "addImageToHubCheckQueue sha m = Inr m' \<Longrightarrow> ConcurrentScanLimit m' = ConcurrentScanLimit m"
  by (auto simp: addImageToHubCheckQueue_def safeGet_def setScanStatus_def
      split: option.splits if_splits)

lemma limit_addImageToScanQueue:
  "addImageToScanQueue sha m = Inr m' \<Longrightarrow> ConcurrentScanLimit m' = ConcurrentScanLimit m"
  by (auto simp: addImageToScanQueue_def safeGet_def setScanStatus_def
      split: option.splits if_splits)

lemma limit_AddImage:
  "AddImage img m = Inr m' \<Longrightarrow> ConcurrentScanLimit m' = ConcurrentScanLimit m"
  by (auto simp: AddImage_def split: option.splits dest!: limit_addImageToHubCheckQueue)

lemma limit_AddPod_loop:
  "AddPod_loop cs m = Inr m' \<Longrightarrow> ConcurrentScanLimit m' = ConcurrentScanLimit m"
  by (induction cs arbitrary: m) (auto split: sum.splits dest!: limit_AddImage)

lemma limit_step:
  "step opn m = Inr m' \<Longrightarrow> ConcurrentScanLimit m' = ConcurrentScanLimit m"
proof (cases opn)
  case (OpAddPod pod)
  then show "step opn m = Inr m' \<Longrightarrow> ?thesis"
    by (auto simp: AddPod_def split: sum.splits dest!: limit_AddPod_loop)
next
  case (OpErrorRunningScanClient img)
  then show "step opn m = Inr m' \<Longrightarrow> ?thesis"
    by (auto simp: errorRunningScanClient_def safeGet_def setScanStatus_def
        split: option.splits if_splits dest!: limit_addImageToScanQueue)
qed (auto simp: DeletePod_def getNextImageFromHubCheckQueue_def getNextImageFromScanQueue_def
      finishRunningScanClient_def finishRunningHubScan_def safeGet_def setScanStatus_def
      split: option.splits if_splits list.splits sum.splits
      dest!: limit_AddImage limit_addImageToHubCheckQueue limit_addImageToScanQueue)

lemma limit_run:
  "run ops m = Inr m' \<Longrightarrow> ConcurrentScanLimit m' = ConcurrentScanLimit m"
proof (induction ops arbitrary: m)
  case Nil
  then show ?case by simp
next
  case (Cons opn ops)
  then show ?case by (auto split: sum.splits dest!: limit_step)
qed

subsection \<open>What the operations return\<close>

lemma image_NewImageInfo: "image (NewImageInfo (Sha img) (Name img)) = img"
  by (simp add: image_def NewImageInfo_def)

lemma AddImage_present:
  "map_of (Images m) (Sha img) = Some info \<Longrightarrow> AddImage img m = Inr m"
  by (simp add: AddImage_def)

lemma AddImage_absent:
  assumes "map_of (Images m) (Sha img) = None"
  shows "AddImage img m =
     Inr (m\<lparr>Images := AList.update (Sha img)
                 ((NewImageInfo (Sha img) (Name img))\<lparr>ScanStatus := ScanStatusInHubCheckQueue\<rparr>)
                 (Images m),
            ImageHubCheckQueue := ImageHubCheckQueue m @ [img]\<rparr>)"
proof -
  have "image (NewImageInfo (Sha img) (Name img)) = img" by (rule image_NewImageInfo)
  moreover have "ScanStatus (NewImageInfo (Sha img) (Name img)) = ScanStatusUnknown"
    by (simp add: NewImageInfo_def)
  ultimately show ?thesis
    using assms
    by (simp add: AddImage_def addImageToHubCheckQueue_def safeGet_def setScanStatus_def
        map_of_update_if)
qed

lemma dequeue_hub_ok:
  assumes "ImageHubCheckQueue m = first # rest"
    and "map_of (Images m) (Sha first) = Some info"
    and "ScanStatus info = ScanStatusInHubCheckQueue"
  shows "getNextImageFromHubCheckQueue m =
     Inr (Some first, (setScanStatus (Sha first) info ScanStatusCheckingHub m)
                        \<lparr>ImageHubCheckQueue := rest\<rparr>)"
  using assms by (simp add: getNextImageFromHubCheckQueue_def safeGet_def)

lemma dequeue_scan_ok:
  assumes "ImageScanQueue m = first # rest"
    and "map_of (Images m) (Sha first) = Some info"
    and "ScanStatus info = ScanStatusInQueue"
    and "inProgressScanCount m < ConcurrentScanLimit m"
  shows "getNextImageFromScanQueue m =
     Inr (Some first, (setScanStatus (Sha first) info ScanStatusRunningScanClient m)
                        \<lparr>ImageScanQueue := rest\<rparr>)"
  using assms by (simp add: getNextImageFromScanQueue_def safeGet_def)

lemma statusOf_None: "statusOf m sha = None \<longleftrightarrow> map_of (Images m) sha = None"
  by (simp add: statusOf_def)

lemma register_new:
  assumes "map_of (Images m) (Sha img) = None"
  shows "\<exists>m'. AddImage img m = Inr m'
           \<and> ImageHubCheckQueue m' = ImageHubCheckQueue m @ [img]
           \<and> (\<forall>sha. statusOf m' sha
                 = (if sha = Sha img then Some ScanStatusInHubCheckQueue else statusOf m sha))"
  using assms by (simp add: AddImage_absent statusOf_def map_of_update_if)

lemma dequeue_hub_queued:
  assumes "ImageHubCheckQueue m = first # rest"
    and "statusOf m (Sha first) = Some ScanStatusInHubCheckQueue"
  shows "\<exists>m'. getNextImageFromHubCheckQueue m = Inr (Some first, m')
           \<and> ImageHubCheckQueue m' = rest
           \<and> (\<forall>sha. statusOf m' sha
                 = (if sha = Sha first then Some ScanStatusCheckingHub else statusOf m sha))"
proof -
  from assms(2) obtain info where "map_of (Images m) (Sha first) = Some info"
    and "ScanStatus info = ScanStatusInHubCheckQueue"
    by (auto simp: statusOf_def)
  then show ?thesis
    using assms(1) by (simp add: dequeue_hub_ok statusOf_setScanStatus statusOf_frame)
qed

lemma dequeue_scan_queued:
  assumes "ImageScanQueue m = first # rest"
    and "statusOf m (Sha first) = Some ScanStatusInQueue"
    and "inProgressScanCount m < ConcurrentScanLimit m"
  shows "\<exists>m'. getNextImageFromScanQueue m = Inr (Some first, m')
           \<and> ImageScanQueue m' = rest
           \<and> (\<forall>sha. statusOf m' sha
                 = (if sha = Sha first then Some ScanStatusRunningScanClient else statusOf m sha))"
proof -
  from assms(2) obtain info where "map_of (Images m) (Sha first) = Some info"
    and "ScanStatus info = ScanStatusInQueue"
    by (auto simp: statusOf_def)
  then show ?thesis
    using assms(1,3) by (simp add: dequeue_scan_ok statusOf_setScanStatus statusOf_frame)
qed

lemma errorRunningScanClient_running:
  assumes got: "map_of (Images m) (Sha img) = Some info"
    and st: "ScanStatus info = ScanStatusRunningScanClient"
  shows "errorRunningScanClient img m =
     Inr (m\<lparr>Images := AList.update (Sha img) (info\<lparr>ScanStatus := ScanStatusInQueue\<rparr>) (Images m),
            ImageScanQueue := ImageScanQueue m @ [image info]\<rparr>)"
  using assms
  by (simp add: errorRunningScanClient_def addImageToScanQueue_def safeGet_def setScanStatus_def
      map_of_update_if image_def)

lemma count_after_error:
  assumes d: "distinct (map fst (Images m))"
    and got: "map_of (Images m) sha = Some info"
    and st: "ScanStatus info = ScanStatusRunningScanClient"
  shows "inProgressScanCount
           (m\<lparr>Images := AList.update sha (info\<lparr>ScanStatus := ScanStatusInQueue\<rparr>) (Images m),
              ImageScanQueue := q\<rparr>) + 1
         = inProgressScanCount m"
proof -
  have "inProgressScanCount (setScanStatus sha info ScanStatusInQueue m) + 1 = inProgressScanCount m"
    using count_setScanStatus [OF d got, of info ScanStatusInQueue] st
    by (simp add: inProgress_def)
  then show ?thesis
    by (simp add: setScanStatus_def inProgressScanCount_def inProgressScanJobs_def)
qed

lemma running_within_limit:
  assumes inv: "model_inv m" and got: "map_of (Images m) sha = Some info"
    and st: "ScanStatus info = ScanStatusRunningScanClient"
  shows "inProgressScanCount m \<le> ConcurrentScanLimit m"
proof -
  have "(sha, info) \<in> set (filter inProgress (Images m))"
    using got st by (auto simp: inProgress_def dest: map_of_SomeD)
  then have "filter inProgress (Images m) \<noteq> []" by (auto simp: filter_empty_conv)
  then have "0 < inProgressScanCount m"
    by (simp add: inProgressScanCount_filter)
  moreover have "inProgressScanCount m \<le> max 0 (ConcurrentScanLimit m)"
    using inv by (simp add: model_inv_def)
  ultimately show ?thesis by linarith
qed

subsection \<open>The queue discipline\<close>

text \<open>Every operation either appends at the tail of a queue or takes its head away.\<close>

lemma queues_AddImage:
  "AddImage img m = Inr m' \<Longrightarrow>
   (\<exists>xs. ImageHubCheckQueue m' = ImageHubCheckQueue m @ xs) \<and> ImageScanQueue m' = ImageScanQueue m"
  by (cases "map_of (Images m) (Sha img)") (auto simp: AddImage_absent AddImage_present)

lemma queues_AddPod_loop:
  "AddPod_loop cs m = Inr m' \<Longrightarrow>
   (\<exists>xs. ImageHubCheckQueue m' = ImageHubCheckQueue m @ xs) \<and> ImageScanQueue m' = ImageScanQueue m"
proof (induction cs arbitrary: m)
  case Nil
  then show ?case by simp
next
  case (Cons c cs)
  from Cons.prems obtain m1 where 1: "AddImage (Image c) m = Inr m1"
    and 2: "AddPod_loop cs m1 = Inr m'"
    by (auto split: sum.splits)
  from queues_AddImage [OF 1] Cons.IH [OF 2] show ?case by auto
qed

lemma hub_queue_step:
  assumes "step opn m = Inr m'"
  shows "(\<exists>xs. ImageHubCheckQueue m' = ImageHubCheckQueue m @ xs)
         \<or> (\<exists>x. ImageHubCheckQueue m = x # ImageHubCheckQueue m')"
proof (cases opn)
  case (OpAddPod pod)
  with assms obtain m1 where "AddPod_loop (Containers pod) m = Inr m1"
    and "m' = m1\<lparr>Pods := (Pods m1)(QualifiedName pod \<mapsto> pod)\<rparr>"
    by (auto simp: AddPod_def split: sum.splits)
  then show ?thesis using queues_AddPod_loop [of "Containers pod" m m1] by auto
next
  case (OpAddImage img)
  with assms show ?thesis using queues_AddImage [of img m m'] by auto
qed (use assms in \<open>auto simp: DeletePod_def addImageToHubCheckQueue_def addImageToScanQueue_def
      getNextImageFromHubCheckQueue_def getNextImageFromScanQueue_def errorRunningScanClient_def
      finishRunningScanClient_def finishRunningHubScan_def safeGet_def setScanStatus_def
      split: option.splits if_splits list.splits sum.splits\<close>)

lemma scan_queue_step:
  assumes "step opn m = Inr m'"
  shows "(\<exists>xs. ImageScanQueue m' = ImageScanQueue m @ xs)
         \<or> (\<exists>x. ImageScanQueue m = x # ImageScanQueue m')"
proof (cases opn)
  case (OpAddPod pod)
  with assms obtain m1 where "AddPod_loop (Containers pod) m = Inr m1"
    and "m' = m1\<lparr>Pods := (Pods m1)(QualifiedName pod \<mapsto> pod)\<rparr>"
    by (auto simp: AddPod_def split: sum.splits)
  then show ?thesis using queues_AddPod_loop [of "Containers pod" m m1] by auto
next
  case (OpAddImage img)
  with assms show ?thesis using queues_AddImage [of img m m'] by auto
qed (use assms in \<open>auto simp: DeletePod_def addImageToHubCheckQueue_def addImageToScanQueue_def
      getNextImageFromHubCheckQueue_def getNextImageFromScanQueue_def errorRunningScanClient_def
      finishRunningScanClient_def finishRunningHubScan_def safeGet_def setScanStatus_def
      split: option.splits if_splits list.splits sum.splits\<close>)

lemma three_registrations:
  assumes q: "ImageHubCheckQueue m = []"
    and new: "map_of (Images m) (Sha r1) = None" "map_of (Images m) (Sha r2) = None"
      "map_of (Images m) (Sha r3) = None"
    and d: "distinct [Sha r1, Sha r2, Sha r3]"
  shows "\<exists>m1 m2 m3 m4 m5 m6.
           AddImage r1 m = Inr m1 \<and> AddImage r2 m1 = Inr m2 \<and> AddImage r3 m2 = Inr m3
           \<and> getNextImageFromHubCheckQueue m3 = Inr (Some r1, m4)
           \<and> getNextImageFromHubCheckQueue m4 = Inr (Some r2, m5)
           \<and> getNextImageFromHubCheckQueue m5 = Inr (Some r3, m6)
           \<and> getNextImageFromHubCheckQueue m6 = Inr (None, m6)"
proof -
  have none: "statusOf m (Sha r2) = None" "statusOf m (Sha r3) = None"
    using new by (simp_all add: statusOf_None)
  have ne: "Sha r1 \<noteq> Sha r2" "Sha r2 \<noteq> Sha r1" "Sha r1 \<noteq> Sha r3" "Sha r3 \<noteq> Sha r1"
    "Sha r2 \<noteq> Sha r3" "Sha r3 \<noteq> Sha r2"
    using d by auto
  from register_new [OF new(1)] q obtain m1 where 1: "AddImage r1 m = Inr m1"
    and q1: "ImageHubCheckQueue m1 = [r1]"
    and s1: "\<And>sha. statusOf m1 sha
               = (if sha = Sha r1 then Some ScanStatusInHubCheckQueue else statusOf m sha)"
    by auto
  have "statusOf m1 (Sha r2) = None"
    using ne none by (simp add: s1)
  then have "map_of (Images m1) (Sha r2) = None"
    by (simp add: statusOf_None)
  from register_new [OF this] q1 obtain m2 where 2: "AddImage r2 m1 = Inr m2"
    and q2: "ImageHubCheckQueue m2 = [r1, r2]"
    and s2: "\<And>sha. statusOf m2 sha
               = (if sha = Sha r2 then Some ScanStatusInHubCheckQueue else statusOf m1 sha)"
    by auto
  have "statusOf m2 (Sha r3) = None"
    using ne none by (simp add: s2 s1)
  then have "map_of (Images m2) (Sha r3) = None"
    by (simp add: statusOf_None)
  from register_new [OF this] q2 obtain m3 where 3: "AddImage r3 m2 = Inr m3"
    and q3: "ImageHubCheckQueue m3 = [r1, r2, r3]"
    and s3: "\<And>sha. statusOf m3 sha
               = (if sha = Sha r3 then Some ScanStatusInHubCheckQueue else statusOf m2 sha)"
    by auto
  have "statusOf m3 (Sha r1) = Some ScanStatusInHubCheckQueue"
    using ne by (simp add: s3 s2 s1)
  from dequeue_hub_queued [OF q3 this] obtain m4
    where 4: "getNextImageFromHubCheckQueue m3 = Inr (Some r1, m4)"
      and q4: "ImageHubCheckQueue m4 = [r2, r3]"
      and s4: "\<And>sha. statusOf m4 sha
               = (if sha = Sha r1 then Some ScanStatusCheckingHub else statusOf m3 sha)"
    by auto
  have "statusOf m4 (Sha r2) = Some ScanStatusInHubCheckQueue"
    using ne by (simp add: s4 s3 s2)
  from dequeue_hub_queued [OF q4 this] obtain m5
    where 5: "getNextImageFromHubCheckQueue m4 = Inr (Some r2, m5)"
      and q5: "ImageHubCheckQueue m5 = [r3]"
      and s5: "\<And>sha. statusOf m5 sha
               = (if sha = Sha r2 then Some ScanStatusCheckingHub else statusOf m4 sha)"
    by auto
  have "statusOf m5 (Sha r3) = Some ScanStatusInHubCheckQueue"
    using ne by (simp add: s5 s4 s3)
  from dequeue_hub_queued [OF q5 this] obtain m6
    where 6: "getNextImageFromHubCheckQueue m5 = Inr (Some r3, m6)"
      and q6: "ImageHubCheckQueue m6 = []"
    by auto
  have 7: "getNextImageFromHubCheckQueue m6 = Inr (None, m6)"
    using q6 by (simp add: getNextImageFromHubCheckQueue_def)
  from 1 2 3 4 5 6 7 show ?thesis by blast
qed

subsection \<open>Registering an image again\<close>

lemma filter_update_other:
  "k \<noteq> sha \<Longrightarrow>
   filter (\<lambda>entry. fst entry = sha) (AList.update k v al) = filter (\<lambda>entry. fst entry = sha) al"
  by (induction al) auto

lemma AddImage_same_for:
  assumes "map_of (Images m) sha = Some info"
  shows "\<exists>m'. AddImage img m = Inr m' \<and> same_for sha m m' \<and> Pods m' = Pods m"
proof (cases "map_of (Images m) (Sha img)")
  case None
  with assms have "Sha img \<noteq> sha" by auto
  then show ?thesis
    using None by (simp add: AddImage_absent same_for_def filter_update_other map_of_update_if)
next
  case (Some a)
  then show ?thesis by (simp add: AddImage_present same_for_def)
qed

lemma AddPod_loop_same_for:
  assumes "map_of (Images m) sha = Some info"
  shows "\<exists>m'. AddPod_loop cs m = Inr m' \<and> same_for sha m m' \<and> Pods m' = Pods m"
  using assms
proof (induction cs arbitrary: m)
  case Nil
  then show ?case by (simp add: same_for_def)
next
  case (Cons c cs)
  from AddImage_same_for [OF Cons.prems, of "Image c"]
  obtain m1 where 1: "AddImage (Image c) m = Inr m1" and s1: "same_for sha m m1"
    and p1: "Pods m1 = Pods m"
    by blast
  from s1 Cons.prems have "map_of (Images m1) sha = Some info"
    by (simp add: same_for_def)
  from Cons.IH [OF this] obtain m' where 2: "AddPod_loop cs m1 = Inr m'"
    and s2: "same_for sha m1 m'" and p2: "Pods m' = Pods m1"
    by blast
  from s1 s2 have "same_for sha m m'" by (simp add: same_for_def)
  with 1 2 p1 p2 show ?case by simp
qed

lemma AddPod_loop_all_present:
  assumes "\<forall>c \<in> set cs. map_of (Images m) (Sha (Image c)) \<noteq> None"
  shows "AddPod_loop cs m = Inr m"
  using assms by (induction cs) (auto simp: AddImage_present)

subsection \<open>The aggregate of a pod\<close>

lemma lastViolation_Cons:
  "lastViolation start (r # rs)
     = lastViolation (if OverallStatus r \<noteq> ''NOT_IN_VIOLATION'' then OverallStatus r else start) rs"
  by (simp add: lastViolation_def split: list.splits)

lemma scanResults_loop_sums:
  "scanResults_loop model containers (p, v, s)
     = (p + sum_list (map PolicyViolationCount (completedResults model containers)),
        v + sum_list (map VulnerabilityCount (completedResults model containers)),
        lastViolation s (completedResults model containers))"
proof (induction containers arbitrary: p v s)
  case Nil
  show ?case by (simp add: completedResults_def lastViolation_def)
next
  case (Cons c cs)
  have unfold: "completedResults model (c # cs)
      = (case map_of (Images model) (Sha (Image c)) of
           None \<Rightarrow> completedResults model cs
         | Some imageInfo \<Rightarrow>
             if ScanStatus imageInfo = ScanStatusComplete
             then (case ScanResults imageInfo of
                     None \<Rightarrow> completedResults model cs
                   | Some r \<Rightarrow> r # completedResults model cs)
             else completedResults model cs)"
    by (simp add: completedResults_def split: option.splits)
  show ?case
    by (simp add: unfold Cons.IH lastViolation_Cons add.assoc split: option.splits)
qed

lemma sint_sum_list:
  fixes xs :: "64 word list"
  assumes "- (2 ^ 63) \<le> sum_list (map sint xs)" and "sum_list (map sint xs) < 2 ^ 63"
  shows "sint (sum_list xs) = sum_list (map sint xs)"
proof -
  have "sum_list xs = word_of_int (sum_list (map sint xs))"
    by (induction xs) simp_all
  then have "sint (sum_list xs) = sint (word_of_int (sum_list (map sint xs)) :: 64 word)"
    by simp
  also have "\<dots> = sum_list (map sint xs)"
    using assms by (simp add: sint_sbintrunc' signed_take_bit_int_eq_self)
  finally show ?thesis .
qed

lemma scanResults_found:
  assumes "Pods model podName = Some pod"
  shows "scanResults podName model
     = Inr (sum_list (map PolicyViolationCount (completedResults model (Containers pod))),
            sum_list (map VulnerabilityCount (completedResults model (Containers pod))),
            lastViolation [] (completedResults model (Containers pod)))"
  using assms by (simp add: scanResults_def scanResults_loop_sums)

lemma completedResults_two:
  assumes "map (\<lambda>c. Sha (Image c)) containers = [sha1, sha2]"
    and "map_of (Images model) sha1 = Some info1" and "ScanStatus info1 = ScanStatusComplete"
    and "ScanResults info1 = Some r1"
    and "map_of (Images model) sha2 = Some info2" and "ScanStatus info2 = ScanStatusComplete"
    and "ScanResults info2 = Some r2"
  shows "completedResults model containers = [r1, r2]"
proof -
  from assms(1) obtain c1 c2 where "containers = [c1, c2]"
    and "Sha (Image c1) = sha1" and "Sha (Image c2) = sha2"
    by (auto simp: map_eq_Cons_conv)
  then show ?thesis
    using assms(2-) by (simp add: completedResults_def)
qed

subsection \<open>Any number of images in the hub check\<close>

lemma update_absent_append:
  "map_of al k = None \<Longrightarrow> AList.update k v al = al @ [(k, v)]"
  by (induction al) (auto split: if_splits)

lemma update_last_entry:
  "map_of al k = None \<Longrightarrow> AList.update k v (al @ [(k, v')]) = al @ [(k, v)]"
  by (induction al) (auto split: if_splits)

lemma run_append:
  "run (xs @ ys) m = (case run xs m of Inl e \<Rightarrow> Inl e | Inr m' \<Rightarrow> run ys m')"
  by (induction xs arbitrary: m) (auto split: sum.splits)

lemma nth_image_fresh: "map_of (Images (all_checking N n)) (Sha (nth_image n)) = None"
proof -
  have "replicate n CHR ''a'' \<noteq> replicate k CHR ''a''" if "k < n" for k
  proof
    assume "replicate n CHR ''a'' = replicate k CHR ''a''"
    then have "length (replicate n CHR ''a'') = length (replicate k CHR ''a'')" by simp
    with that show False by simp
  qed
  then show ?thesis
    by (auto simp: all_checking_def nth_image_def record_of_def map_of_eq_None_iff image_iff)
qed

lemma check_one_more:
  "run [OpAddImage (nth_image n), OpGetNextImageFromHubCheckQueue] (all_checking N n)
     = Inr (all_checking N (Suc n))"
proof -
  let ?m = "all_checking N n"
  let ?img = "nth_image n"
  let ?queued = "(NewImageInfo (Sha ?img) (Name ?img))\<lparr>ScanStatus := ScanStatusInHubCheckQueue\<rparr>"
  note fresh = nth_image_fresh [of N n]
  let ?m1 = "?m\<lparr>Images := Images ?m @ [(Sha ?img, ?queued)], ImageHubCheckQueue := [?img]\<rparr>"
  have 1: "AddImage ?img ?m = Inr ?m1"
    using fresh by (simp add: AddImage_absent update_absent_append) (simp add: all_checking_def)
  have got: "map_of (Images ?m1) (Sha ?img) = Some ?queued"
    using fresh by (simp add: map_add_def)
  have 2: "getNextImageFromHubCheckQueue ?m1
      = Inr (Some ?img, (setScanStatus (Sha ?img) ?queued ScanStatusCheckingHub ?m1)
                          \<lparr>ImageHubCheckQueue := []\<rparr>)"
    by (rule dequeue_hub_ok [OF _ got]) simp_all
  have "AList.update (Sha ?img) (?queued\<lparr>ScanStatus := ScanStatusCheckingHub\<rparr>)
          (Images ?m @ [(Sha ?img, ?queued)])
        = Images ?m @ [(Sha ?img, ?queued\<lparr>ScanStatus := ScanStatusCheckingHub\<rparr>)]"
    using fresh by (rule update_last_entry)
  then have 3: "(setScanStatus (Sha ?img) ?queued ScanStatusCheckingHub ?m1)\<lparr>ImageHubCheckQueue := []\<rparr>
       = all_checking N (Suc n)"
    by (simp add: setScanStatus_def all_checking_def record_of_def NewImageInfo_def)
  show ?thesis using 1 2 3 by simp
qed

lemma run_check_all: "run (check_all n) (NewModel N) = Inr (all_checking N n)"
proof (induction n)
  case 0
  show ?case by (simp add: check_all_def all_checking_def NewModel_def)
next
  case (Suc n)
  have "check_all (Suc n)
      = check_all n @ [OpAddImage (nth_image n), OpGetNextImageFromHubCheckQueue]"
    by (simp add: check_all_def)
  then show ?case using Suc check_one_more by (simp add: run_append)
qed

lemma all_checking_count:
  "length (filter (\<lambda>entry. ScanStatus (snd entry) = ScanStatusCheckingHub)
             (Images (all_checking N n))) = n"
  "inProgressScanCount (all_checking N n) = 0"
  by (simp_all add: all_checking_def record_of_def filter_map o_def
      inProgressScanCount_def inProgressScanJobs_def)

subsection \<open>A panic leaves the model as it was\<close>





subsection \<open>Evaluation of concrete runs\<close>

lemmas operation_defs =
  NewModel_def DeletePod_def safeGet_def setScanStatus_def addImageToHubCheckQueue_def
  addImageToScanQueue_def AddImage_def AddPod_def getNextImageFromHubCheckQueue_def
  inProgressScanJobs_def inProgressScanCount_def getNextImageFromScanQueue_def
  errorRunningScanClient_def finishRunningScanClient_def finishRunningHubScan_def
  NewImageInfo_def image_def QualifiedName_def

lemmas concrete_defs =
  record_of_def model_of_def imageA_def imageB_def imageC_def podP_def

lemma run_one_running: "run ops_one_running (NewModel 1) = Inr model_one_running"
  by (simp add: ops_one_running_def model_one_running_def imageA_def imageB_def operation_defs)

lemma run_both_queues: "run ops_both_queues (NewModel 2) = Inr model_both_queues"
  by (simp add: ops_both_queues_def model_both_queues_def imageA_def imageB_def imageC_def
      operation_defs)

lemma AddPod_podP: "AddPod podP (NewModel 1) = Inr model_pod_added"
  by (simp add: podP_def model_pod_added_def imageA_def operation_defs)

lemma run_hub_scan_running:
  "run ops_hub_scan_running (NewModel 1) = Inr model_hub_scan_running"
  by (simp add: ops_hub_scan_running_def ops_one_running_def model_hub_scan_running_def
      imageA_def imageB_def operation_defs)

lemma run_scanning:
  "run ops_scanning (NewModel 1) = Inr (model_of [record_of imageA ScanStatusRunningScanClient] [] [])"
  by (simp add: ops_scanning_def concrete_defs operation_defs)

lemma run_gate_closed_hub_waiting:
  "run ops_gate_closed_hub_waiting (NewModel 1)
     = Inr (model_of [record_of imageA ScanStatusRunningScanClient,
                      record_of imageB ScanStatusInHubCheckQueue] [] [imageB])"
  by (simp add: ops_gate_closed_hub_waiting_def concrete_defs operation_defs)

lemma run_both_complete: "run ops_both_complete (NewModel 2) = Inr model_both_complete"
  by (simp add: ops_both_complete_def model_both_complete_def podAB_def scanned_violating_def
      scanned_clean_def concrete_defs operation_defs)

section \<open>The claims\<close>

text \<open>
  C1. Admission respects capacity. For every concurrency limit \<open>N \<ge> 0\<close> and every
  model reached from \<open>NewModel N\<close> by any sequence of operations, the number of images
  whose status is \<open>ScanStatusRunningScanClient\<close> or \<open>ScanStatusRunningHubScan\<close> is at most
  \<open>N\<close>, which stays the limit of the model. Moreover, in any model whose count is at or
  above its limit, \<open>getNextImageFromScanQueue\<close> returns nil and leaves the model as it
  is, whatever the scan queue holds.
\<close>

theorem admission_respects_capacity:
  assumes "0 \<le> N" and "run ops (NewModel N) = Inr m"
  shows "inProgressScanCount m \<le> N
         \<and> ConcurrentScanLimit m = N
         \<and> (\<forall>m'. ConcurrentScanLimit m' \<le> inProgressScanCount m'
                \<longrightarrow> getNextImageFromScanQueue m' = Inr (None, m'))"
proof -
  have "model_inv m" using assms(2) by (rule inv_reachable)
  moreover have limit: "ConcurrentScanLimit m = N"
    using limit_run [OF assms(2)] by (simp add: NewModel_def)
  ultimately have "inProgressScanCount m \<le> N"
    using assms(1) by (simp add: model_inv_def)
  then show ?thesis using limit by (simp add: getNextImageFromScanQueue_def)
qed

theorem admission_respects_capacity_witness:
  "(0::int) \<le> 1 \<and> run ops_one_running (NewModel 1) = Inr model_one_running
   \<and> inProgressScanCount model_one_running \<le> 1
   \<and> ImageScanQueue model_one_running = [imageB]
   \<and> ConcurrentScanLimit model_one_running \<le> inProgressScanCount model_one_running
   \<and> getNextImageFromScanQueue model_one_running = Inr (None, model_one_running)"
proof -
  have h: "(0::int) \<le> 1" by simp
  have c: "ConcurrentScanLimit model_one_running \<le> inProgressScanCount model_one_running"
    by (simp add: model_one_running_def inProgressScanCount_def inProgressScanJobs_def)
  from admission_respects_capacity [OF h run_one_running] c
  show ?thesis
    using run_one_running by (simp add: model_one_running_def)
qed

text \<open>
  C2. At most one queue membership. In every model reached from \<open>NewModel N\<close> by any
  sequence of operations, the shas of the hub-check queue followed by the shas of the
  scan queue form a list without repetition: no sha is in both queues, and none is
  twice in either.
\<close>

theorem at_most_one_queue_membership:
  assumes "run ops (NewModel N) = Inr m"
  shows "distinct (map Sha (ImageHubCheckQueue m) @ map Sha (ImageScanQueue m))"
proof -
  have inv: "model_inv m" using assms by (rule inv_reachable)
  have "sha \<notin> Sha ` set (ImageScanQueue m)" if "sha \<in> Sha ` set (ImageHubCheckQueue m)" for sha
  proof -
    from that inv have "statusOf m sha = Some ScanStatusInHubCheckQueue"
      by (auto simp: model_inv_def list_all_iff)
    then show ?thesis using inv by (intro inv_not_in_scan) simp_all
  qed
  then show ?thesis using inv by (auto simp: model_inv_def)
qed

theorem at_most_one_queue_membership_witness:
  "run ops_both_queues (NewModel 2) = Inr model_both_queues
   \<and> map Sha (ImageHubCheckQueue model_both_queues) = [''sha-b'', ''sha-c'']
   \<and> map Sha (ImageScanQueue model_both_queues) = [''sha-a'']
   \<and> distinct (map Sha (ImageHubCheckQueue model_both_queues)
                 @ map Sha (ImageScanQueue model_both_queues))"
  using at_most_one_queue_membership [OF run_both_queues] run_both_queues
  by (simp add: model_both_queues_def imageA_def imageB_def imageC_def)

text \<open>
  C3. ReportAnalysisComplete. For every image whose record has the status
  \<open>ScanStatusRunningHubScan\<close>, \<open>finishRunningHubScan\<close> succeeds, leaves the record with the status
  \<open>ScanStatusComplete\<close> and the given scan results attached, and changes neither another
  record, nor a queue, nor the pods, nor the limit.
\<close>

theorem report_analysis_complete:
  assumes "map_of (Images m) (Sha img) = Some info"
    and "ScanStatus info = ScanStatusRunningHubScan"
  shows "\<exists>m'. finishRunningHubScan img scanned m = Inr m'
           \<and> map_of (Images m') (Sha img)
               = Some (info\<lparr>ScanStatus := ScanStatusComplete, ScanResults := Some scanned\<rparr>)
           \<and> (\<forall>sha. sha \<noteq> Sha img \<longrightarrow> map_of (Images m') sha = map_of (Images m) sha)
           \<and> map fst (Images m') = map fst (Images m)
           \<and> ImageScanQueue m' = ImageScanQueue m
           \<and> ImageHubCheckQueue m' = ImageHubCheckQueue m
           \<and> Pods m' = Pods m
           \<and> ConcurrentScanLimit m' = ConcurrentScanLimit m"
proof -
  have "Sha img \<in> fst ` set (Images m)"
    using assms(1) by (auto dest!: map_of_SomeD intro: rev_image_eqI)
  then show ?thesis
    using assms
    by (simp add: finishRunningHubScan_def safeGet_def setScanStatus_def map_of_update_if
        update_keys)
qed

theorem report_analysis_complete_witness:
  "run ops_hub_scan_running (NewModel 1) = Inr model_hub_scan_running
   \<and> map_of (Images model_hub_scan_running) (Sha imageA)
     = Some \<lparr>ScanStatus = ScanStatusRunningHubScan, ScanResults = None,
             ImageSha = ''sha-a'', ImageName = ''registry/a:1''\<rparr>
   \<and> (\<exists>m'. finishRunningHubScan imageA scanned_clean model_hub_scan_running = Inr m'
         \<and> map_of (Images m') ''sha-a''
             = Some \<lparr>ScanStatus = ScanStatusComplete, ScanResults = Some scanned_clean,
                     ImageSha = ''sha-a'', ImageName = ''registry/a:1''\<rparr>
         \<and> ImageScanQueue m' = [imageB])"
proof -
  have h: "map_of (Images model_hub_scan_running) (Sha imageA)
     = Some \<lparr>ScanStatus = ScanStatusRunningHubScan, ScanResults = None,
             ImageSha = ''sha-a'', ImageName = ''registry/a:1''\<rparr>"
    by (simp add: model_hub_scan_running_def imageA_def)
  from report_analysis_complete [OF h, of scanned_clean]
  obtain m' where "finishRunningHubScan imageA scanned_clean model_hub_scan_running = Inr m'"
    and "map_of (Images m') (Sha imageA)
           = Some \<lparr>ScanStatus = ScanStatusComplete, ScanResults = Some scanned_clean,
                   ImageSha = ''sha-a'', ImageName = ''registry/a:1''\<rparr>"
    and "ImageScanQueue m' = ImageScanQueue model_hub_scan_running"
    by auto
  then show ?thesis
    using h run_hub_scan_running by (auto simp: imageA_def model_hub_scan_running_def)
qed

text \<open>
  C4. Error retries. For every image whose record has the status
  \<open>ScanStatusRunningScanClient\<close>, \<open>errorRunningScanClient\<close> succeeds on this condition
  alone: it leaves the record with the status \<open>ScanStatusInQueue\<close> (having set
  \<open>ScanStatusError\<close> on the way), appends the image at the tail of the scan queue, and
  changes nothing else. When the model was reached by a run from \<open>NewModel N\<close>, the
  count of scans in progress is below the limit afterwards, and the next
  \<open>getNextImageFromScanQueue\<close> returns the head of the scan queue, which is this very
  image when no other image was waiting, and puts it back to \<open>ScanStatusRunningScanClient\<close>.
\<close>

theorem scan_error_requeues:
  assumes got: "map_of (Images m) (Sha img) = Some info"
    and st: "ScanStatus info = ScanStatusRunningScanClient"
  shows "\<exists>m'. errorRunningScanClient img m = Inr m'
           \<and> errorRunningScanClient img m
               = addImageToScanQueue (Sha img) (setScanStatus (Sha img) info ScanStatusError m)
           \<and> statusOf (setScanStatus (Sha img) info ScanStatusError m) (Sha img)
               = Some ScanStatusError
           \<and> statusOf m' (Sha img) = Some ScanStatusInQueue
           \<and> ImageScanQueue m' = ImageScanQueue m @ [image info]
           \<and> (\<forall>sha. sha \<noteq> Sha img \<longrightarrow> map_of (Images m') sha = map_of (Images m) sha)
           \<and> ImageHubCheckQueue m' = ImageHubCheckQueue m
           \<and> Pods m' = Pods m
           \<and> ConcurrentScanLimit m' = ConcurrentScanLimit m
           \<and> ((\<exists>ops N. run ops (NewModel N) = Inr m) \<longrightarrow>
                Sha (image info) = Sha img
                \<and> inProgressScanCount m' < ConcurrentScanLimit m'
                \<and> (\<exists>m''. getNextImageFromScanQueue m'
                             = Inr (Some (hd (ImageScanQueue m @ [image info])), m'')
                       \<and> statusOf m'' (Sha (hd (ImageScanQueue m @ [image info])))
                           = Some ScanStatusRunningScanClient))"
proof -
  let ?m' = "m\<lparr>Images := AList.update (Sha img) (info\<lparr>ScanStatus := ScanStatusInQueue\<rparr>) (Images m),
                ImageScanQueue := ImageScanQueue m @ [image info]\<rparr>"
  have ok: "errorRunningScanClient img m = Inr ?m'"
    using got st by (rule errorRunningScanClient_running)
  have through: "errorRunningScanClient img m
      = addImageToScanQueue (Sha img) (setScanStatus (Sha img) info ScanStatusError m)"
    "statusOf (setScanStatus (Sha img) info ScanStatusError m) (Sha img) = Some ScanStatusError"
    using got st by (simp_all add: errorRunningScanClient_def safeGet_def statusOf_setScanStatus)
  have frame: "statusOf ?m' (Sha img) = Some ScanStatusInQueue"
    "ImageScanQueue ?m' = ImageScanQueue m @ [image info]"
    "\<forall>sha. sha \<noteq> Sha img \<longrightarrow> map_of (Images ?m') sha = map_of (Images m) sha"
    "ImageHubCheckQueue ?m' = ImageHubCheckQueue m" "Pods ?m' = Pods m"
    "ConcurrentScanLimit ?m' = ConcurrentScanLimit m"
    by (simp_all add: statusOf_def map_of_update_if)
  have again: "Sha (image info) = Sha img
      \<and> inProgressScanCount ?m' < ConcurrentScanLimit ?m'
      \<and> (\<exists>m''. getNextImageFromScanQueue ?m'
                   = Inr (Some (hd (ImageScanQueue m @ [image info])), m'')
             \<and> statusOf m'' (Sha (hd (ImageScanQueue m @ [image info])))
                 = Some ScanStatusRunningScanClient)"
    if reach: "\<exists>ops N. run ops (NewModel N) = Inr m"
  proof -
    from reach have inv: "model_inv m" by (auto dest: inv_reachable)
    have inv': "model_inv ?m'"
      using inv ok by (rule inv_errorRunningScanClient)
    have sha: "Sha (image info) = Sha img"
      using inv_stored_sha [OF inv got] by (simp add: image_def)
    have "inProgressScanCount ?m' + 1 = inProgressScanCount m"
      using inv got st by (intro count_after_error) (simp_all add: model_inv_def)
    then have gate: "inProgressScanCount ?m' < ConcurrentScanLimit ?m'"
      using running_within_limit [OF inv got st] by simp
    obtain first rest where q: "ImageScanQueue ?m' = first # rest"
      by (cases "ImageScanQueue ?m'") simp_all
    then have hd: "hd (ImageScanQueue m @ [image info]) = first" by simp
    have "statusOf ?m' (Sha first) = Some ScanStatusInQueue"
      using inv_pop_scan(3) [OF inv' q] .
    from dequeue_scan_queued [OF q this gate] hd sha gate
    show ?thesis by auto
  qed
  from ok through frame again show ?thesis by blast
qed

theorem scan_error_requeues_witness:
  "run ops_scanning (NewModel 1) = Inr (model_of [record_of imageA ScanStatusRunningScanClient] [] [])
   \<and> map_of (Images (model_of [record_of imageA ScanStatusRunningScanClient] [] [])) (Sha imageA)
       = Some (snd (record_of imageA ScanStatusRunningScanClient))
   \<and> errorRunningScanClient imageA (model_of [record_of imageA ScanStatusRunningScanClient] [] [])
       = Inr (model_of [record_of imageA ScanStatusInQueue] [imageA] [])
   \<and> inProgressScanCount (model_of [record_of imageA ScanStatusInQueue] [imageA] []) < 1
   \<and> getNextImageFromScanQueue (model_of [record_of imageA ScanStatusInQueue] [imageA] [])
       = Inr (Some imageA, model_of [record_of imageA ScanStatusRunningScanClient] [] [])"
proof -
  let ?m = "model_of [record_of imageA ScanStatusRunningScanClient] [] []"
  let ?info = "snd (record_of imageA ScanStatusRunningScanClient)"
  have got: "map_of (Images ?m) (Sha imageA) = Some ?info"
    and st: "ScanStatus ?info = ScanStatusRunningScanClient"
    by (simp_all add: concrete_defs)
  have reach: "\<exists>ops N. run ops (NewModel N) = Inr ?m"
    using run_scanning by blast
  from scan_error_requeues [OF got st] reach
  obtain m' m'' where 1: "errorRunningScanClient imageA ?m = Inr m'"
    and 2: "inProgressScanCount m' < ConcurrentScanLimit m'"
    and 3: "getNextImageFromScanQueue m'
              = Inr (Some (hd (ImageScanQueue ?m @ [image ?info])), m'')"
    by blast
  have e: "errorRunningScanClient imageA ?m = Inr (model_of [record_of imageA ScanStatusInQueue] [imageA] [])"
    by (simp add: concrete_defs operation_defs)
  with 1 have m': "m' = model_of [record_of imageA ScanStatusInQueue] [imageA] []" by simp
  have "getNextImageFromScanQueue (model_of [record_of imageA ScanStatusInQueue] [imageA] [])
       = Inr (Some imageA, model_of [record_of imageA ScanStatusRunningScanClient] [] [])"
    using 3 unfolding m' by (simp add: concrete_defs operation_defs)
  moreover have "inProgressScanCount (model_of [record_of imageA ScanStatusInQueue] [imageA] []) < 1"
    using 2 unfolding m' by (simp add: model_of_def)
  ultimately show ?thesis
    using run_scanning got e by simp
qed

text \<open>
  C5. Aggregate results. For a pod key that is present, \<open>scanResults\<close> succeeds and
  returns the sum of the policy-violation counts and the sum of the vulnerability
  counts of the completed results of the pod's containers (images that are not
  registered, not complete or without results add nothing and make nothing fail),
  together with the last overall status, in container order, that is not
  \<open>NOT_IN_VIOLATION\<close>, or the empty string. The sums are sums of Go's \<open>int\<close>; whenever
  the sum of the signed counts lies within 64 bits, it is that very number. For a pod
  key that is absent, \<open>scanResults\<close> fails with the not-found error. In particular, for
  a pod whose two containers refer to an image A (complete, 2 policy violations,
  5 vulnerabilities, \<open>IN_VIOLATION\<close>) and an image B (complete, 0 policy violations,
  1 vulnerability, \<open>NOT_IN_VIOLATION\<close>), in either order, the result is
  (2, 6, \<open>IN_VIOLATION\<close>).
\<close>

theorem aggregate_results:
  "(Pods model podName = Some pod \<longrightarrow>
      scanResults podName model
        = Inr (sum_list (map PolicyViolationCount (completedResults model (Containers pod))),
               sum_list (map VulnerabilityCount (completedResults model (Containers pod))),
               lastViolation [] (completedResults model (Containers pod))))
   \<and> (Pods model podName = Some pod
        \<and> - (2 ^ 63) \<le> sum_list (map (\<lambda>r. sint (PolicyViolationCount r))
                                   (completedResults model (Containers pod)))
        \<and> sum_list (map (\<lambda>r. sint (PolicyViolationCount r))
                       (completedResults model (Containers pod))) < 2 ^ 63
        \<and> - (2 ^ 63) \<le> sum_list (map (\<lambda>r. sint (VulnerabilityCount r))
                                   (completedResults model (Containers pod)))
        \<and> sum_list (map (\<lambda>r. sint (VulnerabilityCount r))
                       (completedResults model (Containers pod))) < 2 ^ 63
      \<longrightarrow> (\<exists>policyViolationCount vulnerabilityCount overallStatus.
             scanResults podName model
               = Inr (policyViolationCount, vulnerabilityCount, overallStatus)
             \<and> sint policyViolationCount
                 = sum_list (map (\<lambda>r. sint (PolicyViolationCount r))
                              (completedResults model (Containers pod)))
             \<and> sint vulnerabilityCount
                 = sum_list (map (\<lambda>r. sint (VulnerabilityCount r))
                              (completedResults model (Containers pod)))))
   \<and> (Pods model podName = None \<longrightarrow> scanResults podName model = Inl (PodNotFound podName))
   \<and> (Pods model podName = Some pod
        \<and> (map (\<lambda>c. Sha (Image c)) (Containers pod) = [shaA, shaB]
            \<or> map (\<lambda>c. Sha (Image c)) (Containers pod) = [shaB, shaA])
        \<and> map_of (Images model) shaA = Some infoA \<and> ScanStatus infoA = ScanStatusComplete
        \<and> ScanResults infoA
            = Some \<lparr>PolicyViolationCount = 2, VulnerabilityCount = 5,
                    OverallStatus = ''IN_VIOLATION''\<rparr>
        \<and> map_of (Images model) shaB = Some infoB \<and> ScanStatus infoB = ScanStatusComplete
        \<and> ScanResults infoB
            = Some \<lparr>PolicyViolationCount = 0, VulnerabilityCount = 1,
                    OverallStatus = ''NOT_IN_VIOLATION''\<rparr>
      \<longrightarrow> scanResults podName model = Inr (2, 6, ''IN_VIOLATION''))"
proof (intro conjI impI)
  assume "Pods model podName = Some pod"
  then show "scanResults podName model
        = Inr (sum_list (map PolicyViolationCount (completedResults model (Containers pod))),
               sum_list (map VulnerabilityCount (completedResults model (Containers pod))),
               lastViolation [] (completedResults model (Containers pod)))"
    by (rule scanResults_found)
next
  let ?rs = "completedResults model (Containers pod)"
  assume a: "Pods model podName = Some pod
        \<and> - (2 ^ 63) \<le> sum_list (map (\<lambda>r. sint (PolicyViolationCount r)) ?rs)
        \<and> sum_list (map (\<lambda>r. sint (PolicyViolationCount r)) ?rs) < 2 ^ 63
        \<and> - (2 ^ 63) \<le> sum_list (map (\<lambda>r. sint (VulnerabilityCount r)) ?rs)
        \<and> sum_list (map (\<lambda>r. sint (VulnerabilityCount r)) ?rs) < 2 ^ 63"
  have p: "sint (sum_list (map PolicyViolationCount ?rs))
      = sum_list (map (\<lambda>r. sint (PolicyViolationCount r)) ?rs)"
    using a sint_sum_list [of "map PolicyViolationCount ?rs"] by (simp add: o_def)
  have v: "sint (sum_list (map VulnerabilityCount ?rs))
      = sum_list (map (\<lambda>r. sint (VulnerabilityCount r)) ?rs)"
    using a sint_sum_list [of "map VulnerabilityCount ?rs"] by (simp add: o_def)
  from a have "Pods model podName = Some pod" by simp
  from scanResults_found [OF this] p v
  show "\<exists>policyViolationCount vulnerabilityCount overallStatus.
             scanResults podName model
               = Inr (policyViolationCount, vulnerabilityCount, overallStatus)
             \<and> sint policyViolationCount = sum_list (map (\<lambda>r. sint (PolicyViolationCount r)) ?rs)
             \<and> sint vulnerabilityCount = sum_list (map (\<lambda>r. sint (VulnerabilityCount r)) ?rs)"
    by simp
next
  assume "Pods model podName = None"
  then show "scanResults podName model = Inl (PodNotFound podName)"
    by (simp add: scanResults_def)
next
  let ?rA = "\<lparr>PolicyViolationCount = 2, VulnerabilityCount = 5, OverallStatus = ''IN_VIOLATION''\<rparr>"
  let ?rB = "\<lparr>PolicyViolationCount = 0, VulnerabilityCount = 1, OverallStatus = ''NOT_IN_VIOLATION''\<rparr>"
  assume a: "Pods model podName = Some pod
        \<and> (map (\<lambda>c. Sha (Image c)) (Containers pod) = [shaA, shaB]
            \<or> map (\<lambda>c. Sha (Image c)) (Containers pod) = [shaB, shaA])
        \<and> map_of (Images model) shaA = Some infoA \<and> ScanStatus infoA = ScanStatusComplete
        \<and> ScanResults infoA = Some ?rA
        \<and> map_of (Images model) shaB = Some infoB \<and> ScanStatus infoB = ScanStatusComplete
        \<and> ScanResults infoB = Some ?rB"
  then have pod: "Pods model podName = Some pod"
    and gA: "map_of (Images model) shaA = Some infoA" "ScanStatus infoA = ScanStatusComplete"
      "ScanResults infoA = Some ?rA"
    and gB: "map_of (Images model) shaB = Some infoB" "ScanStatus infoB = ScanStatusComplete"
      "ScanResults infoB = Some ?rB"
    by simp_all
  from a consider
    (ab) "map (\<lambda>c. Sha (Image c)) (Containers pod) = [shaA, shaB]"
    | (ba) "map (\<lambda>c. Sha (Image c)) (Containers pod) = [shaB, shaA]"
    by blast
  then show "scanResults podName model = Inr (2, 6, ''IN_VIOLATION'')"
  proof cases
    case ab
    have "completedResults model (Containers pod) = [?rA, ?rB]"
      by (rule completedResults_two [OF ab gA gB])
    then show ?thesis
      by (simp add: scanResults_found [OF pod] lastViolation_def)
  next
    case ba
    have "completedResults model (Containers pod) = [?rB, ?rA]"
      by (rule completedResults_two [OF ba gB gA])
    then show ?thesis
      by (simp add: scanResults_found [OF pod] lastViolation_def)
  qed
qed

theorem aggregate_results_witness:
  "run ops_both_complete (NewModel 2) = Inr model_both_complete
   \<and> Pods model_both_complete ''ns/ab'' = Some podAB
   \<and> completedResults model_both_complete (Containers podAB) = [scanned_violating, scanned_clean]
   \<and> scanResults ''ns/ab'' model_both_complete = Inr (2, 6, ''IN_VIOLATION'')
   \<and> Pods model_both_complete ''ns/nonexistent'' = None
   \<and> scanResults ''ns/nonexistent'' model_both_complete = Inl (PodNotFound ''ns/nonexistent'')
   \<and> Pods model_pod_added ''ns/p'' = Some podP
   \<and> scanResults ''ns/p'' model_pod_added = Inr (0, 0, [])"
proof -
  let ?infoA = "\<lparr>ScanStatus = ScanStatusComplete, ScanResults = Some scanned_violating,
                  ImageSha = ''sha-a'', ImageName = ''registry/a:1''\<rparr>"
  let ?infoB = "\<lparr>ScanStatus = ScanStatusComplete, ScanResults = Some scanned_clean,
                  ImageSha = ''sha-b'', ImageName = ''registry/b:1''\<rparr>"
  have pod: "Pods model_both_complete ''ns/ab'' = Some podAB"
    and none: "Pods model_both_complete ''ns/nonexistent'' = None"
    and order: "map (\<lambda>c. Sha (Image c)) (Containers podAB) = [''sha-a'', ''sha-b'']"
    and a: "map_of (Images model_both_complete) ''sha-a'' = Some ?infoA"
    and b: "map_of (Images model_both_complete) ''sha-b'' = Some ?infoB"
    by (simp_all add: model_both_complete_def podAB_def concrete_defs)
  have rs: "completedResults model_both_complete (Containers podAB)
              = [scanned_violating, scanned_clean]"
    by (simp add: completedResults_def model_both_complete_def podAB_def concrete_defs)
  have small: "- (2 ^ 63) \<le> sum_list (map (\<lambda>r. sint (PolicyViolationCount r))
                                   (completedResults model_both_complete (Containers podAB)))
        \<and> sum_list (map (\<lambda>r. sint (PolicyViolationCount r))
                       (completedResults model_both_complete (Containers podAB))) < 2 ^ 63
        \<and> - (2 ^ 63) \<le> sum_list (map (\<lambda>r. sint (VulnerabilityCount r))
                                   (completedResults model_both_complete (Containers podAB)))
        \<and> sum_list (map (\<lambda>r. sint (VulnerabilityCount r))
                       (completedResults model_both_complete (Containers podAB))) < 2 ^ 63"
    by (simp add: rs scanned_violating_def scanned_clean_def)
  note agg = aggregate_results [of model_both_complete "''ns/ab''" podAB "''sha-a''" "''sha-b''"
      ?infoA ?infoB]
  have 1: "scanResults ''ns/ab'' model_both_complete = Inr (2, 6, ''IN_VIOLATION'')"
    by (rule agg [THEN conjunct2, THEN conjunct2, THEN conjunct2, THEN mp])
      (simp add: pod order a b scanned_violating_def scanned_clean_def)
  from agg [THEN conjunct2, THEN conjunct1] pod small
  have 2: "\<exists>policyViolationCount vulnerabilityCount overallStatus.
             scanResults ''ns/ab'' model_both_complete
               = Inr (policyViolationCount, vulnerabilityCount, overallStatus)
             \<and> sint policyViolationCount
                 = sum_list (map (\<lambda>r. sint (PolicyViolationCount r))
                              (completedResults model_both_complete (Containers podAB)))
             \<and> sint vulnerabilityCount
                 = sum_list (map (\<lambda>r. sint (VulnerabilityCount r))
                              (completedResults model_both_complete (Containers podAB)))"
    by blast
  from aggregate_results [of model_both_complete "''ns/nonexistent''"] none
  have 3: "scanResults ''ns/nonexistent'' model_both_complete = Inl (PodNotFound ''ns/nonexistent'')"
    by blast
  have podp: "Pods model_pod_added ''ns/p'' = Some podP"
    by (simp add: model_pod_added_def)
  from aggregate_results [of model_pod_added "''ns/p''" podP] podp
  have "scanResults ''ns/p'' model_pod_added
        = Inr (sum_list (map PolicyViolationCount (completedResults model_pod_added (Containers podP))),
               sum_list (map VulnerabilityCount (completedResults model_pod_added (Containers podP))),
               lastViolation [] (completedResults model_pod_added (Containers podP)))"
    by blast
  moreover have "completedResults model_pod_added (Containers podP) = []"
    by (simp add: completedResults_def model_pod_added_def concrete_defs)
  ultimately have 4: "scanResults ''ns/p'' model_pod_added = Inr (0, 0, [])"
    by (simp add: lastViolation_def)
  show ?thesis
    using run_both_complete pod rs 1 2 none 3 podp 4 by simp
qed

text \<open>
  C6. Idempotent registration. \<open>AddImage\<close> of an image whose sha is already in the
  registry returns the model as it is: no record is created, and no status, result or
  queue changes. The same holds when the repeat comes through \<open>AddPod\<close>: a pod all of
  whose images are registered changes nothing but its own entry in the pod map, and
  for any pod, every sha registered before keeps its one record (status and results),
  its place in the hub-check queue, and the scan queue as they were.
\<close>

theorem idempotent_registration:
  "(map_of (Images m) (Sha img) = Some info \<longrightarrow> AddImage img m = Inr m)
   \<and> ((\<forall>c \<in> set (Containers pod). map_of (Images m) (Sha (Image c)) \<noteq> None)
      \<longrightarrow> AddPod pod m = Inr (m\<lparr>Pods := (Pods m)(QualifiedName pod \<mapsto> pod)\<rparr>))
   \<and> (map_of (Images m) sha = Some info
      \<longrightarrow> (\<exists>m'. AddPod pod m = Inr m'
              \<and> map_of (Images m') sha = Some info
              \<and> filter (\<lambda>entry. fst entry = sha) (Images m')
                  = filter (\<lambda>entry. fst entry = sha) (Images m)
              \<and> filter (\<lambda>img. Sha img = sha) (ImageHubCheckQueue m')
                  = filter (\<lambda>img. Sha img = sha) (ImageHubCheckQueue m)
              \<and> ImageScanQueue m' = ImageScanQueue m
              \<and> ConcurrentScanLimit m' = ConcurrentScanLimit m
              \<and> Pods m' = (Pods m)(QualifiedName pod \<mapsto> pod)))"
proof (intro conjI impI)
  assume "map_of (Images m) (Sha img) = Some info"
  then show "AddImage img m = Inr m" by (rule AddImage_present)
next
  assume "\<forall>c \<in> set (Containers pod). map_of (Images m) (Sha (Image c)) \<noteq> None"
  then have "AddPod_loop (Containers pod) m = Inr m" by (rule AddPod_loop_all_present)
  then show "AddPod pod m = Inr (m\<lparr>Pods := (Pods m)(QualifiedName pod \<mapsto> pod)\<rparr>)"
    by (simp add: AddPod_def)
next
  assume "map_of (Images m) sha = Some info"
  from AddPod_loop_same_for [OF this, of "Containers pod"] this
  show "\<exists>m'. AddPod pod m = Inr m'
              \<and> map_of (Images m') sha = Some info
              \<and> filter (\<lambda>entry. fst entry = sha) (Images m')
                  = filter (\<lambda>entry. fst entry = sha) (Images m)
              \<and> filter (\<lambda>img. Sha img = sha) (ImageHubCheckQueue m')
                  = filter (\<lambda>img. Sha img = sha) (ImageHubCheckQueue m)
              \<and> ImageScanQueue m' = ImageScanQueue m
              \<and> ConcurrentScanLimit m' = ConcurrentScanLimit m
              \<and> Pods m' = (Pods m)(QualifiedName pod \<mapsto> pod)"
    by (auto simp: AddPod_def same_for_def)
qed

theorem idempotent_registration_witness:
  "AddPod podP (NewModel 1) = Inr model_pod_added
   \<and> map_of (Images model_pod_added) ''sha-a''
       = Some (snd (record_of imageA ScanStatusInHubCheckQueue))
   \<and> AddImage \<lparr>Name = ''registry/a:latest'', Sha = ''sha-a''\<rparr> model_pod_added
       = Inr model_pod_added
   \<and> AddPod (podP\<lparr>PodName := ''q''\<rparr>) model_pod_added
       = Inr (model_pod_added\<lparr>Pods := [''ns/p'' \<mapsto> podP, ''ns/q'' \<mapsto> podP\<lparr>PodName := ''q''\<rparr>]\<rparr>)
   \<and> (\<exists>m'. AddPod podAB model_pod_added = Inr m'
         \<and> map_of (Images m') ''sha-a'' = Some (snd (record_of imageA ScanStatusInHubCheckQueue))
         \<and> filter (\<lambda>entry. fst entry = ''sha-a'') (Images m')
             = [record_of imageA ScanStatusInHubCheckQueue]
         \<and> filter (\<lambda>img. Sha img = ''sha-a'') (ImageHubCheckQueue m') = [imageA]
         \<and> ImageScanQueue m' = [])"
proof -
  let ?info = "snd (record_of imageA ScanStatusInHubCheckQueue)"
  have got: "map_of (Images model_pod_added) ''sha-a'' = Some ?info"
    by (simp add: model_pod_added_def concrete_defs)
  have all: "\<forall>c \<in> set (Containers (podP\<lparr>PodName := ''q''\<rparr>)).
      map_of (Images model_pod_added) (Sha (Image c)) \<noteq> None"
    by (simp add: model_pod_added_def concrete_defs)
  from idempotent_registration
    [of model_pod_added "\<lparr>Name = ''registry/a:latest'', Sha = ''sha-a''\<rparr>" ?info] got
  have 1: "AddImage \<lparr>Name = ''registry/a:latest'', Sha = ''sha-a''\<rparr> model_pod_added
       = Inr model_pod_added"
    by simp
  from idempotent_registration [of model_pod_added imageA ?info "podP\<lparr>PodName := ''q''\<rparr>"] all
  have "AddPod (podP\<lparr>PodName := ''q''\<rparr>) model_pod_added
       = Inr (model_pod_added\<lparr>Pods := (Pods model_pod_added)
                (QualifiedName (podP\<lparr>PodName := ''q''\<rparr>) \<mapsto> podP\<lparr>PodName := ''q''\<rparr>)\<rparr>)"
    by blast
  moreover have "(Pods model_pod_added)(QualifiedName (podP\<lparr>PodName := ''q''\<rparr>) \<mapsto> podP\<lparr>PodName := ''q''\<rparr>)
      = [''ns/p'' \<mapsto> podP, ''ns/q'' \<mapsto> podP\<lparr>PodName := ''q''\<rparr>]"
    by (simp add: model_pod_added_def QualifiedName_def podP_def)
  ultimately have 2: "AddPod (podP\<lparr>PodName := ''q''\<rparr>) model_pod_added
       = Inr (model_pod_added\<lparr>Pods := [''ns/p'' \<mapsto> podP, ''ns/q'' \<mapsto> podP\<lparr>PodName := ''q''\<rparr>]\<rparr>)"
    by simp
  from idempotent_registration [of model_pod_added imageA ?info podAB "''sha-a''"] got
  obtain m' where "AddPod podAB model_pod_added = Inr m'"
    and "map_of (Images m') ''sha-a'' = Some ?info"
    and "filter (\<lambda>entry. fst entry = ''sha-a'') (Images m')
           = filter (\<lambda>entry. fst entry = ''sha-a'') (Images model_pod_added)"
    and "filter (\<lambda>img. Sha img = ''sha-a'') (ImageHubCheckQueue m')
           = filter (\<lambda>img. Sha img = ''sha-a'') (ImageHubCheckQueue model_pod_added)"
    and "ImageScanQueue m' = ImageScanQueue model_pod_added"
    by blast
  then have 3: "\<exists>m'. AddPod podAB model_pod_added = Inr m'
         \<and> map_of (Images m') ''sha-a'' = Some ?info
         \<and> filter (\<lambda>entry. fst entry = ''sha-a'') (Images m')
             = [record_of imageA ScanStatusInHubCheckQueue]
         \<and> filter (\<lambda>img. Sha img = ''sha-a'') (ImageHubCheckQueue m') = [imageA]
         \<and> ImageScanQueue m' = []"
    by (simp add: model_pod_added_def concrete_defs)
  show ?thesis
    using AddPod_podP got 1 2 3 by simp
qed



text \<open>
  C8. FIFO ordering. When three images with distinct shas, none of them in the registry
  yet, are registered one after the other in a model whose hub-check queue is empty,
  the next three calls of \<open>getNextImageFromHubCheckQueue\<close> return the first, then the
  second, then the third, and a fourth call returns nil. Both queues are first-in
  first-out throughout: an operation that succeeds either appends to a queue at its
  tail or removes its head, an enqueue appends exactly one image, and a dequeue that
  returns an image returns the head of its queue.
\<close>

theorem fifo_ordering:
  "(ImageHubCheckQueue m = [] \<and> map_of (Images m) (Sha r1) = None
      \<and> map_of (Images m) (Sha r2) = None \<and> map_of (Images m) (Sha r3) = None
      \<and> distinct [Sha r1, Sha r2, Sha r3]
    \<longrightarrow> (\<exists>m1 m2 m3 m4 m5 m6.
           AddImage r1 m = Inr m1 \<and> AddImage r2 m1 = Inr m2 \<and> AddImage r3 m2 = Inr m3
           \<and> getNextImageFromHubCheckQueue m3 = Inr (Some r1, m4)
           \<and> getNextImageFromHubCheckQueue m4 = Inr (Some r2, m5)
           \<and> getNextImageFromHubCheckQueue m5 = Inr (Some r3, m6)
           \<and> getNextImageFromHubCheckQueue m6 = Inr (None, m6)))
   \<and> (step opn m = Inr m'
    \<longrightarrow> ((\<exists>xs. ImageHubCheckQueue m' = ImageHubCheckQueue m @ xs)
          \<or> (\<exists>x. ImageHubCheckQueue m = x # ImageHubCheckQueue m'))
        \<and> ((\<exists>xs. ImageScanQueue m' = ImageScanQueue m @ xs)
          \<or> (\<exists>x. ImageScanQueue m = x # ImageScanQueue m')))
   \<and> (addImageToHubCheckQueue sha m = Inr m'
    \<longrightarrow> (\<exists>x. ImageHubCheckQueue m' = ImageHubCheckQueue m @ [x]))
   \<and> (addImageToScanQueue sha m = Inr m'
    \<longrightarrow> (\<exists>x. ImageScanQueue m' = ImageScanQueue m @ [x]))
   \<and> (getNextImageFromHubCheckQueue m = Inr (Some x, m')
    \<longrightarrow> ImageHubCheckQueue m = x # ImageHubCheckQueue m')
   \<and> (getNextImageFromScanQueue m = Inr (Some x, m')
    \<longrightarrow> ImageScanQueue m = x # ImageScanQueue m')"
proof (intro conjI impI)
  assume "ImageHubCheckQueue m = [] \<and> map_of (Images m) (Sha r1) = None
      \<and> map_of (Images m) (Sha r2) = None \<and> map_of (Images m) (Sha r3) = None
      \<and> distinct [Sha r1, Sha r2, Sha r3]"
  then show "\<exists>m1 m2 m3 m4 m5 m6.
           AddImage r1 m = Inr m1 \<and> AddImage r2 m1 = Inr m2 \<and> AddImage r3 m2 = Inr m3
           \<and> getNextImageFromHubCheckQueue m3 = Inr (Some r1, m4)
           \<and> getNextImageFromHubCheckQueue m4 = Inr (Some r2, m5)
           \<and> getNextImageFromHubCheckQueue m5 = Inr (Some r3, m6)
           \<and> getNextImageFromHubCheckQueue m6 = Inr (None, m6)"
    by (intro three_registrations) simp_all
next
  assume "step opn m = Inr m'"
  then show "(\<exists>xs. ImageHubCheckQueue m' = ImageHubCheckQueue m @ xs)
          \<or> (\<exists>x. ImageHubCheckQueue m = x # ImageHubCheckQueue m')"
    by (rule hub_queue_step)
next
  assume "step opn m = Inr m'"
  then show "(\<exists>xs. ImageScanQueue m' = ImageScanQueue m @ xs)
          \<or> (\<exists>x. ImageScanQueue m = x # ImageScanQueue m')"
    by (rule scan_queue_step)
next
  assume "addImageToHubCheckQueue sha m = Inr m'"
  then show "\<exists>x. ImageHubCheckQueue m' = ImageHubCheckQueue m @ [x]"
    by (auto simp: addImageToHubCheckQueue_def safeGet_def setScanStatus_def
        split: option.splits if_splits)
next
  assume "addImageToScanQueue sha m = Inr m'"
  then show "\<exists>x. ImageScanQueue m' = ImageScanQueue m @ [x]"
    by (auto simp: addImageToScanQueue_def safeGet_def setScanStatus_def
        split: option.splits if_splits)
next
  assume "getNextImageFromHubCheckQueue m = Inr (Some x, m')"
  then show "ImageHubCheckQueue m = x # ImageHubCheckQueue m'"
    by (auto simp: getNextImageFromHubCheckQueue_def safeGet_def setScanStatus_def
        split: option.splits if_splits list.splits)
next
  assume "getNextImageFromScanQueue m = Inr (Some x, m')"
  then show "ImageScanQueue m = x # ImageScanQueue m'"
    by (auto simp: getNextImageFromScanQueue_def safeGet_def setScanStatus_def
        split: option.splits if_splits list.splits)
qed

theorem fifo_ordering_witness:
  "(\<exists>m1 m2 m3 m4 m5 m6.
      AddImage imageA (NewModel 1) = Inr m1 \<and> AddImage imageB m1 = Inr m2
      \<and> AddImage imageC m2 = Inr m3
      \<and> getNextImageFromHubCheckQueue m3 = Inr (Some imageA, m4)
      \<and> getNextImageFromHubCheckQueue m4 = Inr (Some imageB, m5)
      \<and> getNextImageFromHubCheckQueue m5 = Inr (Some imageC, m6)
      \<and> getNextImageFromHubCheckQueue m6 = Inr (None, m6))
   \<and> step (OpAddPod podP) (NewModel 1) = Inr model_pod_added
   \<and> ImageHubCheckQueue model_pod_added = ImageHubCheckQueue (NewModel 1) @ [imageA]
   \<and> addImageToHubCheckQueue ''sha-b''
        (model_of [record_of imageA ScanStatusInHubCheckQueue, record_of imageB ScanStatusError]
           [] [imageA])
       = Inr (model_of [record_of imageA ScanStatusInHubCheckQueue,
                        record_of imageB ScanStatusInHubCheckQueue] [] [imageA, imageB])
   \<and> addImageToScanQueue ''sha-b''
        (model_of [record_of imageA ScanStatusInQueue, record_of imageB ScanStatusCheckingHub]
           [imageA] [])
       = Inr (model_of [record_of imageA ScanStatusInQueue, record_of imageB ScanStatusInQueue]
                [imageA, imageB] [])
   \<and> getNextImageFromHubCheckQueue
        (model_of [record_of imageA ScanStatusInHubCheckQueue,
                   record_of imageB ScanStatusInHubCheckQueue] [] [imageA, imageB])
       = Inr (Some imageA,
              model_of [record_of imageA ScanStatusCheckingHub,
                        record_of imageB ScanStatusInHubCheckQueue] [] [imageB])
   \<and> getNextImageFromScanQueue
        (model_of [record_of imageA ScanStatusInQueue, record_of imageB ScanStatusInQueue]
           [imageA, imageB] [])
       = Inr (Some imageA,
              model_of [record_of imageA ScanStatusRunningScanClient,
                        record_of imageB ScanStatusInQueue] [imageB] [])"
proof -
  have fresh: "ImageHubCheckQueue (NewModel 1) = [] \<and> map_of (Images (NewModel 1)) (Sha imageA) = None
      \<and> map_of (Images (NewModel 1)) (Sha imageB) = None
      \<and> map_of (Images (NewModel 1)) (Sha imageC) = None
      \<and> distinct [Sha imageA, Sha imageB, Sha imageC]"
    by (simp add: NewModel_def concrete_defs)
  have pod: "step (OpAddPod podP) (NewModel 1) = Inr model_pod_added"
    using AddPod_podP by simp
  have e1: "addImageToHubCheckQueue ''sha-b''
        (model_of [record_of imageA ScanStatusInHubCheckQueue, record_of imageB ScanStatusError]
           [] [imageA])
       = Inr (model_of [record_of imageA ScanStatusInHubCheckQueue,
                        record_of imageB ScanStatusInHubCheckQueue] [] [imageA, imageB])"
    by (simp add: concrete_defs operation_defs)
  have e2: "addImageToScanQueue ''sha-b''
        (model_of [record_of imageA ScanStatusInQueue, record_of imageB ScanStatusCheckingHub]
           [imageA] [])
       = Inr (model_of [record_of imageA ScanStatusInQueue, record_of imageB ScanStatusInQueue]
                [imageA, imageB] [])"
    by (simp add: concrete_defs operation_defs)
  have d1: "getNextImageFromHubCheckQueue
        (model_of [record_of imageA ScanStatusInHubCheckQueue,
                   record_of imageB ScanStatusInHubCheckQueue] [] [imageA, imageB])
       = Inr (Some imageA,
              model_of [record_of imageA ScanStatusCheckingHub,
                        record_of imageB ScanStatusInHubCheckQueue] [] [imageB])"
    by (simp add: concrete_defs operation_defs)
  have d2: "getNextImageFromScanQueue
        (model_of [record_of imageA ScanStatusInQueue, record_of imageB ScanStatusInQueue]
           [imageA, imageB] [])
       = Inr (Some imageA,
              model_of [record_of imageA ScanStatusRunningScanClient,
                        record_of imageB ScanStatusInQueue] [imageB] [])"
    by (simp add: concrete_defs operation_defs)
  from fifo_ordering [of "NewModel 1" imageA imageB imageC] fresh
  have scenario: "\<exists>m1 m2 m3 m4 m5 m6.
      AddImage imageA (NewModel 1) = Inr m1 \<and> AddImage imageB m1 = Inr m2
      \<and> AddImage imageC m2 = Inr m3
      \<and> getNextImageFromHubCheckQueue m3 = Inr (Some imageA, m4)
      \<and> getNextImageFromHubCheckQueue m4 = Inr (Some imageB, m5)
      \<and> getNextImageFromHubCheckQueue m5 = Inr (Some imageC, m6)
      \<and> getNextImageFromHubCheckQueue m6 = Inr (None, m6)"
    by blast
  from fifo_ordering [of "NewModel 1" imageA imageB imageC "OpAddPod podP" model_pod_added] pod
  have appended: "(\<exists>xs. ImageHubCheckQueue model_pod_added = ImageHubCheckQueue (NewModel 1) @ xs)
      \<or> (\<exists>x. ImageHubCheckQueue (NewModel 1) = x # ImageHubCheckQueue model_pod_added)"
    by blast
  have tail: "ImageHubCheckQueue model_pod_added = ImageHubCheckQueue (NewModel 1) @ [imageA]"
    using appended by (simp add: model_pod_added_def NewModel_def)
  from fifo_ordering [where sha = "''sha-b''", THEN conjunct2, THEN conjunct2, THEN conjunct1,
      THEN mp, OF e1]
  have t1: "\<exists>x. ImageHubCheckQueue (model_of [record_of imageA ScanStatusInHubCheckQueue,
                        record_of imageB ScanStatusInHubCheckQueue] [] [imageA, imageB])
            = ImageHubCheckQueue (model_of [record_of imageA ScanStatusInHubCheckQueue,
                        record_of imageB ScanStatusError] [] [imageA]) @ [x]" .
  from fifo_ordering [where sha = "''sha-b''", THEN conjunct2, THEN conjunct2, THEN conjunct2,
      THEN conjunct1, THEN mp, OF e2]
  have t2: "\<exists>x. ImageScanQueue (model_of [record_of imageA ScanStatusInQueue,
                        record_of imageB ScanStatusInQueue] [imageA, imageB] [])
            = ImageScanQueue (model_of [record_of imageA ScanStatusInQueue,
                        record_of imageB ScanStatusCheckingHub] [imageA] []) @ [x]" .
  from fifo_ordering [THEN conjunct2, THEN conjunct2, THEN conjunct2, THEN conjunct2,
      THEN conjunct1, THEN mp, OF d1]
  have h1: "ImageHubCheckQueue (model_of [record_of imageA ScanStatusInHubCheckQueue,
                   record_of imageB ScanStatusInHubCheckQueue] [] [imageA, imageB])
            = imageA # ImageHubCheckQueue (model_of [record_of imageA ScanStatusCheckingHub,
                        record_of imageB ScanStatusInHubCheckQueue] [] [imageB])" .
  from fifo_ordering [THEN conjunct2, THEN conjunct2, THEN conjunct2, THEN conjunct2,
      THEN conjunct2, THEN mp, OF d2]
  have h2: "ImageScanQueue (model_of [record_of imageA ScanStatusInQueue,
                   record_of imageB ScanStatusInQueue] [imageA, imageB] [])
            = imageA # ImageScanQueue (model_of [record_of imageA ScanStatusRunningScanClient,
                        record_of imageB ScanStatusInQueue] [imageB] [])" .
  show ?thesis
    using scenario pod tail e1 e2 d1 d2 t1 t2 h1 h2 by blast
qed

text \<open>
  C9. Pod deletion does not evict images. \<open>DeletePod\<close> clears the entry of the given key
  in the pod map and nothing else: every other pod, every image record (its existence,
  status and results), both queues and the limit are as before, whether or not the
  deleted pod was the only one to reference an image. For a key that is absent, the
  model is unchanged.
\<close>

theorem delete_pod_frame:
  "Pods (DeletePod podName m) podName = None
   \<and> (\<forall>other. other \<noteq> podName \<longrightarrow> Pods (DeletePod podName m) other = Pods m other)
   \<and> Images (DeletePod podName m) = Images m
   \<and> ImageScanQueue (DeletePod podName m) = ImageScanQueue m
   \<and> ImageHubCheckQueue (DeletePod podName m) = ImageHubCheckQueue m
   \<and> ConcurrentScanLimit (DeletePod podName m) = ConcurrentScanLimit m
   \<and> (Pods m podName = None \<longrightarrow> DeletePod podName m = m)"
  by (simp add: DeletePod_def fun_upd_idem)

theorem delete_pod_frame_witness:
  "AddPod podP (NewModel 1) = Inr model_pod_added
   \<and> Pods model_pod_added ''ns/p'' = Some podP
   \<and> Pods (DeletePod ''ns/p'' model_pod_added) ''ns/p'' = None
   \<and> Images (DeletePod ''ns/p'' model_pod_added) = Images model_pod_added
   \<and> map fst (Images model_pod_added) = [''sha-a'']
   \<and> ImageHubCheckQueue (DeletePod ''ns/p'' model_pod_added) = [imageA]
   \<and> Pods model_pod_added ''ns/q'' = None
   \<and> DeletePod ''ns/q'' model_pod_added = model_pod_added"
proof -
  have absent: "Pods model_pod_added ''ns/q'' = None"
    by (simp add: model_pod_added_def)
  from delete_pod_frame [of "''ns/q''" model_pod_added] absent
  have "DeletePod ''ns/q'' model_pod_added = model_pod_added" by simp
  moreover from delete_pod_frame [of "''ns/p''" model_pod_added]
  have "Pods (DeletePod ''ns/p'' model_pod_added) ''ns/p'' = None"
    and "Images (DeletePod ''ns/p'' model_pod_added) = Images model_pod_added"
    and "ImageHubCheckQueue (DeletePod ''ns/p'' model_pod_added) = ImageHubCheckQueue model_pod_added"
    by simp_all
  ultimately show ?thesis
    using AddPod_podP absent by (simp add: model_pod_added_def)
qed

text \<open>
  C10. The concurrency limit gates only the scan queue. In every model reached by a
  run from \<open>NewModel N\<close> whose hub-check queue is not empty,
  \<open>getNextImageFromHubCheckQueue\<close> returns the head of that queue, moves it to
  \<open>ScanStatusCheckingHub\<close> and leaves the rest of the queue, whatever the number of scans
  in progress and whatever the limit. Hence for every limit \<open>N\<close> and every number \<open>n\<close> there
  is a run from \<open>NewModel N\<close> to a model with \<open>n\<close> images in \<open>ScanStatusCheckingHub\<close> at the
  same time.
\<close>

theorem hub_check_not_gated:
  "(run ops (NewModel N) = Inr m \<and> ImageHubCheckQueue m = first # rest
    \<longrightarrow> (\<exists>m'. getNextImageFromHubCheckQueue m = Inr (Some first, m')
            \<and> statusOf m' (Sha first) = Some ScanStatusCheckingHub
            \<and> ImageHubCheckQueue m' = rest))
   \<and> (\<exists>ops' m'. run ops' (NewModel N) = Inr m'
          \<and> length (filter (\<lambda>entry. ScanStatus (snd entry) = ScanStatusCheckingHub) (Images m')) = n)"
proof (intro conjI impI)
  assume a: "run ops (NewModel N) = Inr m \<and> ImageHubCheckQueue m = first # rest"
  then have inv: "model_inv m" by (auto dest: inv_reachable)
  from a have q: "ImageHubCheckQueue m = first # rest" by simp
  from dequeue_hub_queued [OF q inv_pop_hub(3) [OF inv q]]
  show "\<exists>m'. getNextImageFromHubCheckQueue m = Inr (Some first, m')
            \<and> statusOf m' (Sha first) = Some ScanStatusCheckingHub
            \<and> ImageHubCheckQueue m' = rest"
    by auto
next
  show "\<exists>ops' m'. run ops' (NewModel N) = Inr m'
          \<and> length (filter (\<lambda>entry. ScanStatus (snd entry) = ScanStatusCheckingHub) (Images m')) = n"
    using run_check_all [of n N] all_checking_count(1) [of N n] by blast
qed

theorem hub_check_not_gated_witness:
  "run ops_gate_closed_hub_waiting (NewModel 1)
     = Inr (model_of [record_of imageA ScanStatusRunningScanClient,
                      record_of imageB ScanStatusInHubCheckQueue] [] [imageB])
   \<and> ConcurrentScanLimit (model_of [record_of imageA ScanStatusRunningScanClient,
                      record_of imageB ScanStatusInHubCheckQueue] [] [imageB])
       \<le> inProgressScanCount (model_of [record_of imageA ScanStatusRunningScanClient,
                      record_of imageB ScanStatusInHubCheckQueue] [] [imageB])
   \<and> getNextImageFromHubCheckQueue
        (model_of [record_of imageA ScanStatusRunningScanClient,
                   record_of imageB ScanStatusInHubCheckQueue] [] [imageB])
       = Inr (Some imageB,
              model_of [record_of imageA ScanStatusRunningScanClient,
                        record_of imageB ScanStatusCheckingHub] [] [])
   \<and> (\<exists>ops' m'. run ops' (NewModel 0) = Inr m'
          \<and> length (filter (\<lambda>entry. ScanStatus (snd entry) = ScanStatusCheckingHub) (Images m')) = 5)"
proof -
  let ?m = "model_of [record_of imageA ScanStatusRunningScanClient,
                      record_of imageB ScanStatusInHubCheckQueue] [] [imageB]"
  have q: "ImageHubCheckQueue ?m = imageB # []" by (simp add: model_of_def)
  have full: "ConcurrentScanLimit ?m \<le> inProgressScanCount ?m"
    by (simp add: concrete_defs inProgressScanCount_def inProgressScanJobs_def)
  from hub_check_not_gated [of ops_gate_closed_hub_waiting 1 ?m imageB "[]"]
    run_gate_closed_hub_waiting q
  obtain m' where 1: "getNextImageFromHubCheckQueue ?m = Inr (Some imageB, m')"
    by blast
  then have 2: "getNextImageFromHubCheckQueue ?m
       = Inr (Some imageB,
              model_of [record_of imageA ScanStatusRunningScanClient,
                        record_of imageB ScanStatusCheckingHub] [] [])"
    by (simp add: concrete_defs operation_defs)
  from hub_check_not_gated [of ops_gate_closed_hub_waiting 0 ?m imageB "[]" 5]
  have 3: "\<exists>ops' m'. run ops' (NewModel 0) = Inr m'
          \<and> length (filter (\<lambda>entry. ScanStatus (snd entry) = ScanStatusCheckingHub) (Images m')) = 5"
    by blast
  show ?thesis
    using run_gate_closed_hub_waiting full 2 3 by simp
qed

end
